theory Spec2Isabelle
  imports Main "HOL-Library.Sublist"
begin

section \<open>JavaScript values and string helpers\<close>

text \<open>
  Strings are lists of 8-bit characters; a JavaScript code unit above 0xFF is outside the
  model. The only numbers the client builds come from \<open>parseInt(s, 10)\<close>: \<open>NaN\<close>, a double
  whose value is an integer, or an infinity. \<open>Num i\<close> is the double of value \<open>i\<close>; negative
  zero is kept as \<open>Num 0\<close>, from which the client never tells it apart.
\<close>

datatype number = NaN | Num int | Infinity | NegInfinity

datatype jsval = Undefined | Str string | Number number | Bool bool

text \<open>\<open>Record<string, unknown>\<close>: the properties in insertion order.\<close>

type_synonym request = "(string \<times> jsval) list"

text \<open>\<open>obj[k]\<close>: a missing property reads as \<open>undefined\<close>.\<close>

definition get_prop :: "request \<Rightarrow> string \<Rightarrow> jsval" where
  "get_prop obj k = (case map_of obj k of None \<Rightarrow> Undefined | Some v \<Rightarrow> v)"

text \<open>\<open>obj[k] = v\<close>: an existing property keeps its place, a new one goes last.\<close>

fun set_prop :: "request \<Rightarrow> string \<Rightarrow> jsval \<Rightarrow> request" where
  "set_prop [] k v = [(k, v)]"
| "set_prop (p # ps) k v = (if fst p = k then (k, v) # ps else p # set_prop ps k v)"

text \<open>\<open>xs[i]\<close> on an array of strings: \<open>undefined\<close> out of range.\<close>

definition at_index :: "string list \<Rightarrow> nat \<Rightarrow> jsval" where
  "at_index xs i = (if i < length xs then Str (xs ! i) else Undefined)"

definition digit_char :: "nat \<Rightarrow> char" where
  "digit_char d = char_of (48 + d)"

function show_nat :: "nat \<Rightarrow> string" where
  "show_nat n = (if n < 10 then [digit_char n] else show_nat (n div 10) @ [digit_char (n mod 10)])"
  by pat_completeness auto
termination
  by (relation "measure (\<lambda>n. n)") auto

declare show_nat.simps [simp del]

text \<open>
  \<open>String(v)\<close> and the conversion a template literal applies. The decimal digits of a
  number are JavaScript's below \<open>10 ^ 21\<close>; the encoder converts strings and \<open>undefined\<close> only.
\<close>

fun to_String :: "jsval \<Rightarrow> string" where
  "to_String Undefined = ''undefined''"
| "to_String (Str s) = s"
| "to_String (Number NaN) = ''NaN''"
| "to_String (Number (Num i)) = (if i < 0 then CHR ''-'' # show_nat (nat (- i)) else show_nat (nat i))"
| "to_String (Number Infinity) = ''Infinity''"
| "to_String (Number NegInfinity) = ''-Infinity''"
| "to_String (Bool b) = (if b then ''true'' else ''false'')"

text \<open>
  White space as \<open>\s\<close>, \<open>trim\<close> and \<open>parseInt\<close> see it, among the code units below 0x100:
  tab, line feed, vertical tab, form feed, carriage return, space, no-break space.
\<close>

definition is_space :: "char \<Rightarrow> bool" where
  "is_space c = (of_char c \<in> {9, 10, 11, 12, 13, 32, 160 :: nat})"

text \<open>\<open>\d\<close>: the ten ASCII digits.\<close>

definition is_digit :: "char \<Rightarrow> bool" where
  "is_digit c = (48 \<le> (of_char c :: nat) \<and> (of_char c :: nat) \<le> 57)"

definition trim :: "string \<Rightarrow> string" where
  "trim s = rev (dropWhile is_space (rev (dropWhile is_space s)))"

definition dec_value :: "string \<Rightarrow> nat" where
  "dec_value ds = foldl (\<lambda>a c. 10 * a + (of_char c - 48)) 0 ds"

text \<open>
  The double nearest to a natural number, ties going to the even significand of 53 bits;
  \<open>None\<close> when that is beyond the largest double, where JavaScript has \<open>Infinity\<close>.
\<close>

function bit_length :: "nat \<Rightarrow> nat" where
  "bit_length n = (if n = 0 then 0 else Suc (bit_length (n div 2)))"
  by pat_completeness auto
termination
  by (relation "measure (\<lambda>n. n)") auto

declare bit_length.simps [simp del]

definition nearest_double :: "nat \<Rightarrow> nat option" where
  "nearest_double m =
     (if m < 2 ^ 53 then Some m
      else
        let e = bit_length m - 53;
            q = m div 2 ^ e;
            r = m mod 2 ^ e;
            half = 2 ^ (e - 1);
            q' = (if half < r \<or> (r = half \<and> odd q) then q + 1 else q)
        in if 2 ^ 1024 \<le> q' * 2 ^ e then None else Some (q' * 2 ^ e))"

text \<open>
  \<open>parseInt(s, 10)\<close>: leading white space is skipped, one sign is read, then the longest
  run of digits; no digit gives \<open>NaN\<close>, and the digits give the double nearest to the integer
  they write.
\<close>

definition parseInt :: "string \<Rightarrow> number" where
  "parseInt s =
     (let s1 = dropWhile is_space s;
          neg = (s1 \<noteq> [] \<and> hd s1 = CHR ''-'');
          s2 = (if s1 \<noteq> [] \<and> (hd s1 = CHR ''-'' \<or> hd s1 = CHR ''+'') then tl s1 else s1);
          ds = takeWhile is_digit s2
      in if ds = [] then NaN
         else (case nearest_double (dec_value ds) of
                 None \<Rightarrow> (if neg then NegInfinity else Infinity)
               | Some v \<Rightarrow> Num (if neg then - int v else int v)))"

text \<open>
  The regular expression \<open>/^\d+$/\<close> on a string, and \<open>/^\d+$/.test(v)\<close>, which converts
  its argument to a string first.
\<close>

definition matches_digits :: "string \<Rightarrow> bool" where
  "matches_digits s = (s \<noteq> [] \<and> list_all is_digit s)"

definition test_digits :: "jsval \<Rightarrow> bool" where
  "test_digits v = matches_digits (to_String v)"

text \<open>\<open>xs.join(' ')\<close>.\<close>

fun join_sp :: "string list \<Rightarrow> string" where
  "join_sp [] = []"
| "join_sp [x] = x"
| "join_sp (x # y # ys) = x @ CHR '' '' # join_sp (y # ys)"

section \<open>Command parsing\<close>

text \<open>
  \<open>rest[0]?.startsWith('http')\<close>: \<open>undefined\<close> short-circuits to a falsy value.
\<close>

definition startsWith_http :: "jsval \<Rightarrow> bool" where
  "startsWith_http v = (case v of Str s \<Rightarrow> prefix ''http'' s | _ \<Rightarrow> False)"

text \<open>
  The option loop of the \<open>snapshot\<close> verb. \<open>--depth\<close> and \<open>--selector\<close> read the next
  element with \<open>rest[++i]\<close> and so skip it, present or not.
\<close>

definition flag_interactive :: "string \<Rightarrow> bool" where
  "flag_interactive arg = (arg = ''-i'' \<or> arg = ''--interactive'')"

definition flag_compact :: "string \<Rightarrow> bool" where
  "flag_compact arg = (arg = ''-c'' \<or> arg = ''--compact'')"

definition flag_depth :: "string \<Rightarrow> bool" where
  "flag_depth arg = (arg = ''--depth'' \<or> arg = ''-d'')"

definition flag_selector :: "string \<Rightarrow> bool" where
  "flag_selector arg = (arg = ''--selector'' \<or> arg = ''-s'')"

function snapshot_opts :: "string list \<Rightarrow> request \<Rightarrow> request" where
  "snapshot_opts [] opts = opts"
| "snapshot_opts (arg # rest) opts =
     (if flag_interactive arg then
        snapshot_opts rest (set_prop opts ''interactive'' (Bool True))
      else if flag_compact arg then
        snapshot_opts rest (set_prop opts ''compact'' (Bool True))
      else if flag_depth arg then
        snapshot_opts (tl rest)
          (set_prop opts ''maxDepth'' (Number (parseInt (to_String (at_index rest 0)))))
      else if flag_selector arg then
        snapshot_opts (tl rest) (set_prop opts ''selector'' (at_index rest 0))
      else snapshot_opts rest opts)"
  by pat_completeness auto
termination
  by (relation "measure (\<lambda>(rest, opts). length rest)") auto

text \<open>
  \<open>parseCommand\<close>. The first parameter is the text \<open>Math.random().toString(36)\<close> of this
  call, from which the identifier is cut by \<open>slice(2, 10)\<close>; \<open>None\<close> is \<open>null\<close>.
\<close>

definition parseCommand :: "string \<Rightarrow> string list \<Rightarrow> request option" where
  "parseCommand rnd parts =
     (if length parts = 0 then None
      else
        let command = hd parts;
            rest = drop 1 parts;
            id = Str (take 8 (drop 2 rnd))
        in
        if command = ''open'' \<or> command = ''goto'' \<or> command = ''navigate'' then
          Some [(''id'', id), (''action'', Str ''navigate''),
                (''url'', if startsWith_http (at_index rest 0) then at_index rest 0
                          else Str (''https://'' @ to_String (at_index rest 0)))]
        else if command = ''click'' then
          Some [(''id'', id), (''action'', Str ''click''), (''selector'', at_index rest 0)]
        else if command = ''fill'' then
          Some [(''id'', id), (''action'', Str ''fill''), (''selector'', at_index rest 0),
                (''value'', Str (join_sp (drop 1 rest)))]
        else if command = ''type'' then
          Some [(''id'', id), (''action'', Str ''type''), (''selector'', at_index rest 0),
                (''text'', Str (join_sp (drop 1 rest)))]
        else if command = ''hover'' then
          Some [(''id'', id), (''action'', Str ''hover''), (''selector'', at_index rest 0)]
        else if command = ''snapshot'' then
          Some (snapshot_opts rest [(''id'', id), (''action'', Str ''snapshot'')])
        else if command = ''screenshot'' then
          Some [(''id'', id), (''action'', Str ''screenshot''), (''path'', at_index rest 0)]
        else if command = ''close'' \<or> command = ''quit'' then
          Some [(''id'', id), (''action'', Str ''close'')]
        else if command = ''get'' then
          (if at_index rest 0 = Str ''text'' then
             Some [(''id'', id), (''action'', Str ''gettext''), (''selector'', at_index rest 1)]
           else if at_index rest 0 = Str ''url'' then
             Some [(''id'', id), (''action'', Str ''url'')]
           else if at_index rest 0 = Str ''title'' then
             Some [(''id'', id), (''action'', Str ''title'')]
           else None)
        else if command = ''press'' then
          Some [(''id'', id), (''action'', Str ''press''), (''key'', at_index rest 0)]
        else if command = ''wait'' then
          (if test_digits (at_index rest 0) then
             Some [(''id'', id), (''action'', Str ''wait''),
                   (''timeout'', Number (parseInt (to_String (at_index rest 0))))]
           else
             Some [(''id'', id), (''action'', Str ''wait''), (''selector'', at_index rest 0)])
        else if command = ''back'' then
          Some [(''id'', id), (''action'', Str ''back'')]
        else if command = ''forward'' then
          Some [(''id'', id), (''action'', Str ''forward'')]
        else if command = ''reload'' then
          Some [(''id'', id), (''action'', Str ''reload'')]
        else if command = ''eval'' then
          Some [(''id'', id), (''action'', Str ''evaluate''), (''script'', Str (join_sp rest))]
        else None)"

text \<open>
  \<open>arg.match(/(?:[^\s"]+|"[^"]*")+/g) || []\<close>. A match is a longest run of pieces, each
  either characters that are neither white space nor a double quote, or a double-quoted
  stretch holding no double quote. The scanner keeps the current match in \<open>cur\<close> and
  whether it is inside a quoted stretch; a double quote opens a stretch only when a closing
  one follows, and otherwise ends the match and is skipped, as white space is.
\<close>

definition dquote :: char where
  "dquote = CHR 0x22"

definition emit :: "string \<Rightarrow> string list" where
  "emit cur = (if cur = [] then [] else [cur])"

fun scan :: "string \<Rightarrow> bool \<Rightarrow> string \<Rightarrow> string list" where
  "scan cur inq [] = emit cur"
| "scan cur inq (c # cs) =
     (if inq then
        (if c = dquote then scan (cur @ [c]) False cs else scan (cur @ [c]) True cs)
      else if c = dquote then
        (if dquote \<in> set cs then scan (cur @ [c]) True cs else emit cur @ scan [] False cs)
      else if is_space c then emit cur @ scan [] False cs
      else scan (cur @ [c]) False cs)"

definition match_all :: "string \<Rightarrow> string list" where
  "match_all arg = scan [] False arg"

text \<open>\<open>p.replace(/^"|"$/g, '')\<close>: one leading and one trailing double quote go.\<close>

definition strip_quotes :: "string \<Rightarrow> string" where
  "strip_quotes p =
     (let p1 = (if p \<noteq> [] \<and> hd p = dquote then tl p else p)
      in if p1 \<noteq> [] \<and> last p1 = dquote then butlast p1 else p1)"

text \<open>
  \<open>parseBatchCommands\<close>. \<open>rand k\<close> is the text of the \<open>k\<close>-th draw of \<open>Math.random()\<close>;
  \<open>parseCommand\<close> draws once per call, after its test for an empty token list.
\<close>

fun parseBatchCommands_loop ::
  "(nat \<Rightarrow> string) \<Rightarrow> nat \<Rightarrow> string list \<Rightarrow> request list \<Rightarrow> request list" where
  "parseBatchCommands_loop rand k [] commands = commands"
| "parseBatchCommands_loop rand k (arg # args) commands =
     (let parts = match_all arg;
          cleanParts = map strip_quotes parts
      in if cleanParts = [] then parseBatchCommands_loop rand k args commands
         else (case parseCommand (rand k) cleanParts of
                 None \<Rightarrow> parseBatchCommands_loop rand (Suc k) args commands
               | Some cmd \<Rightarrow> parseBatchCommands_loop rand (Suc k) args (commands @ [cmd])))"

definition parseBatchCommands :: "(nat \<Rightarrow> string) \<Rightarrow> string list \<Rightarrow> request list" where
  "parseBatchCommands rand args = parseBatchCommands_loop rand 0 args []"

section \<open>Daemon management\<close>

text \<open>
  What the supervisor sees of the machine: whether the marker file exists, what reading it
  gives (\<open>None\<close> when \<open>readFileSync\<close> throws), whether \<open>process.kill(pid, 0)\<close> returns
  for a process identifier, whether the socket path exists at the \<open>k\<close>-th look (look 0 is
  the one of the readiness test, looks 1 to 50 are the polls after the spawn), which paths
  exist, and the three candidate paths of the daemon script as \<open>path.join\<close> gives them.
\<close>

record host =
  pid_file_exists :: bool
  pid_file_text :: "string option"
  kill0 :: "int \<Rightarrow> bool"
  socket_exists :: "nat \<Rightarrow> bool"
  path_exists :: "string \<Rightarrow> bool"
  beside_script :: string
  beside_dist :: string
  cwd_dist :: string

text \<open>
  \<open>process.kill\<close> throws on an argument that is not a 32-bit integer (\<open>NaN\<close> and the
  infinities among them) before it asks the system.
\<close>

definition process_kill0 :: "host \<Rightarrow> number \<Rightarrow> bool" where
  "process_kill0 h pid =
     (case pid of
        Num n \<Rightarrow> - (2 ^ 31) \<le> n \<and> n < 2 ^ 31 \<and> kill0 h n
      | _ \<Rightarrow> False)"

definition isDaemonRunning :: "host \<Rightarrow> bool" where
  "isDaemonRunning h =
     (if \<not> pid_file_exists h then False
      else (case pid_file_text h of
              None \<Rightarrow> False
            | Some txt \<Rightarrow> process_kill0 h (parseInt (trim txt))))"

datatype ensured =
    Ready
  | NotFound string
  | Started string
  | StartFailed string

fun poll :: "(nat \<Rightarrow> bool) \<Rightarrow> nat \<Rightarrow> nat \<Rightarrow> bool" where
  "poll sock k 0 = False"
| "poll sock k (Suc n) = (if sock k then True else poll sock (Suc k) n)"

text \<open>
  \<open>ensureDaemon\<close>: \<open>Ready\<close> is the immediate return without a spawn, \<open>NotFound\<close> the
  error thrown before any spawn, with its message. \<open>Started\<close> and \<open>StartFailed\<close> carry the
  path that was spawned: the first returns once the socket is seen, the second throws
  \<open>Failed to start daemon\<close> after fifty polls.
\<close>

definition ensureDaemon :: "host \<Rightarrow> ensured" where
  "ensureDaemon h =
     (if isDaemonRunning h \<and> socket_exists h 0 then Ready
      else
        let daemonPath = beside_script h;
            daemonPath = (if \<not> path_exists h daemonPath then beside_dist h else daemonPath);
            daemonPath = (if \<not> path_exists h daemonPath then cwd_dist h else daemonPath)
        in if \<not> path_exists h daemonPath then
             NotFound (''Daemon not found. Looked in: '' @ daemonPath)
           else if poll (socket_exists h) 1 50 then Started daemonPath
           else StartFailed daemonPath)"

section \<open>Values from the daemon\<close>

text \<open>
  What \<open>JSON.parse\<close> returns. \<open>JNum m e\<close> is the finite number \<open>m * 2 ^ e\<close>, and
  \<open>JInfinity neg\<close> the infinity that a literal beyond the doubles, such as \<open>1e999\<close>, parses
  to, negative when \<open>neg\<close> holds. An object holds its own properties, each name once.
\<close>

datatype jvalue =
    JNull
  | JBool bool
  | JNum int int
  | JInfinity bool
  | JStr string
  | JArr "jvalue list"
  | JObj "(string \<times> jvalue) list"

text \<open>
  \<open>v.k\<close> for a value other than \<open>null\<close> and one of the names the client reads (\<open>success\<close>,
  \<open>error\<close>, \<open>data\<close>, \<open>url\<close>, \<open>title\<close>, \<open>snapshot\<close>, \<open>text\<close>, \<open>result\<close>, \<open>closed\<close>): no prototype has
  any of them, so only an own property of an object is found. \<open>None\<close> is \<open>undefined\<close>.
  \<open>opt_field\<close> is \<open>d?.k\<close>, on a value that may be \<open>undefined\<close> or \<open>null\<close>.
\<close>

definition field :: "jvalue \<Rightarrow> string \<Rightarrow> jvalue option" where
  "field v k = (case v of JObj props \<Rightarrow> map_of props k | _ \<Rightarrow> None)"

definition opt_field :: "jvalue option \<Rightarrow> string \<Rightarrow> jvalue option" where
  "opt_field d k = (case d of None \<Rightarrow> None | Some v \<Rightarrow> field v k)"

text \<open>Whether a value counts as true in a condition.\<close>

fun truthy :: "jvalue option \<Rightarrow> bool" where
  "truthy None = False"
| "truthy (Some JNull) = False"
| "truthy (Some (JBool b)) = b"
| "truthy (Some (JNum m e)) = (m \<noteq> 0)"
| "truthy (Some (JInfinity neg)) = True"
| "truthy (Some (JStr s)) = (s \<noteq> [])"
| "truthy (Some (JArr xs)) = True"
| "truthy (Some (JObj props)) = True"

text \<open>
  Whether \<open>String(v)\<close>, or \<open>v\<close> in a template literal, throws. A parsed object has no
  callable property: with an own \<open>toString\<close> it cannot be converted, and without one it reads
  as \<open>[object Object]\<close>. An array joins the conversions of its elements.
\<close>

fun throws_ToString :: "jvalue \<Rightarrow> bool" where
  "throws_ToString (JObj props) = (''toString'' \<in> fst ` set props)"
| "throws_ToString (JArr xs) = list_ex throws_ToString xs"
| "throws_ToString v = False"

text \<open>The messages of the two errors, as Node words them.\<close>

definition null_read_error :: string where
  "null_read_error = ''Cannot read properties of null (reading 'success')''"

definition primitive_error :: string where
  "primitive_error = ''Cannot convert object to primitive value''"

text \<open>
  \<open>formatResponse\<close>, as far as it can throw: the message of the \<open>TypeError\<close>, or \<open>None\<close> when
  it returns its text. \<open>shown\<close> holds the values that the branch taken converts to strings;
  the branch of \<open>result\<close> converts a primitive or calls \<open>JSON.stringify\<close>, and neither throws.
\<close>

definition formatResponse_error :: "jvalue \<Rightarrow> string option" where
  "formatResponse_error response =
     (if response = JNull then Some null_read_error
      else
        let data = field response ''data'';
            shown =
              (if \<not> truthy (field response ''success'') then [field response ''error'']
               else if truthy (opt_field data ''url'') \<and> truthy (opt_field data ''title'') then
                 [opt_field data ''title'', opt_field data ''url'']
               else if truthy (opt_field data ''snapshot'') then [opt_field data ''snapshot'']
               else if opt_field data ''text'' \<noteq> None then [opt_field data ''text'']
               else if truthy (opt_field data ''url'') then [opt_field data ''url'']
               else if truthy (opt_field data ''title'') then [opt_field data ''title'']
               else [])
        in if list_ex (\<lambda>v. case v of None \<Rightarrow> False | Some x \<Rightarrow> throws_ToString x) shown
           then Some primitive_error
           else None)"

section \<open>One exchange with the daemon\<close>

text \<open>
  The promise of an exchange is resolved with the value \<open>JSON.parse\<close> returns, or rejected
  with an error, kept by its message.
\<close>

datatype 'd outcome = Resolved 'd | Rejected string

text \<open>
  The state of one \<open>sendCommand\<close> call: its two variables, whether the socket still has
  its listeners, and the log of what the handlers did to the socket and the promise. The
  call is run on the events of the exchange, in the order the event loop delivers them.
\<close>

datatype 'd effect =
    SocketWrite string
  | RemoveAllListeners
  | SocketDestroy
  | Settle "'d outcome"

record 'd exchange =
  buffer :: string
  resolved :: bool
  listening :: bool
  effects :: "'d effect list"

datatype event = Connect | Data string | SocketError string | Close | Timeout

definition new_exchange :: "'d exchange" where
  "new_exchange = \<lparr>buffer = [], resolved = False, listening = True, effects = []\<rparr>"

definition cleanup :: "'d exchange \<Rightarrow> 'd exchange" where
  "cleanup s = s\<lparr>listening := False, effects := effects s @ [RemoveAllListeners, SocketDestroy]\<rparr>"

definition resolve :: "'d \<Rightarrow> 'd exchange \<Rightarrow> 'd exchange" where
  "resolve r s = s\<lparr>effects := effects s @ [Settle (Resolved r)]\<rparr>"

definition reject :: "string \<Rightarrow> 'd exchange \<Rightarrow> 'd exchange" where
  "reject m s = s\<lparr>effects := effects s @ [Settle (Rejected m)]\<rparr>"

text \<open>\<open>buffer.indexOf('\n')\<close>, with \<open>None\<close> for -1.\<close>

definition indexOf_newline :: "string \<Rightarrow> nat option" where
  "indexOf_newline b =
     (if CHR 0x0A \<in> set b then Some (length (takeWhile (\<lambda>c. c \<noteq> CHR 0x0A) b)) else None)"

text \<open>
  The handlers. \<open>wire\<close> is \<open>JSON.stringify(cmd)\<close>; \<open>parse\<close> is \<open>JSON.parse\<close>, \<open>None\<close> when it
  throws.
\<close>

definition on_connect :: "string \<Rightarrow> 'd exchange \<Rightarrow> 'd exchange" where
  "on_connect wire s = s\<lparr>effects := effects s @ [SocketWrite (wire @ [CHR 0x0A])]\<rparr>"

definition on_data ::
  "(string \<Rightarrow> 'd option) \<Rightarrow> string \<Rightarrow> 'd exchange \<Rightarrow> 'd exchange" where
  "on_data parse d s =
     (let s1 = s\<lparr>buffer := buffer s @ d\<rparr>
      in case indexOf_newline (buffer s1) of
           None \<Rightarrow> s1
         | Some idx \<Rightarrow>
             if \<not> resolved s1 then
               let s2 = s1\<lparr>resolved := True\<rparr>
               in (case parse (take idx (buffer s2)) of
                     Some response \<Rightarrow> resolve response (cleanup s2)
                   | None \<Rightarrow> reject ''Invalid JSON response'' (cleanup s2))
             else s1)"

definition on_error :: "string \<Rightarrow> 'd exchange \<Rightarrow> 'd exchange" where
  "on_error err s =
     (if \<not> resolved s then reject err (cleanup (s\<lparr>resolved := True\<rparr>)) else s)"

definition on_close :: "(string \<Rightarrow> 'd option) \<Rightarrow> 'd exchange \<Rightarrow> 'd exchange" where
  "on_close parse s =
     (if \<not> resolved s \<and> trim (buffer s) \<noteq> [] then
        let s1 = s\<lparr>resolved := True\<rparr>
        in (case parse (trim (buffer s1)) of
              Some response \<Rightarrow> resolve response s1
            | None \<Rightarrow> reject ''Connection closed'' s1)
      else s)"

definition on_timeout :: "'d exchange \<Rightarrow> 'd exchange" where
  "on_timeout s =
     (if \<not> resolved s then reject ''Timeout'' (cleanup (s\<lparr>resolved := True\<rparr>)) else s)"

text \<open>
  One event. A socket event reaches its handler only while the listeners are attached;
  the timer is never cleared, so its callback always runs.
\<close>

fun step ::
  "string \<Rightarrow> (string \<Rightarrow> 'd option) \<Rightarrow> 'd exchange \<Rightarrow> event \<Rightarrow> 'd exchange" where
  "step wire parse s Timeout = on_timeout s"
| "step wire parse s Connect = (if listening s then on_connect wire s else s)"
| "step wire parse s (Data d) = (if listening s then on_data parse d s else s)"
| "step wire parse s (SocketError err) = (if listening s then on_error err s else s)"
| "step wire parse s Close = (if listening s then on_close parse s else s)"

definition sendCommand ::
  "string \<Rightarrow> (string \<Rightarrow> 'd option) \<Rightarrow> event list \<Rightarrow> 'd exchange" where
  "sendCommand wire parse evs = foldl (step wire parse) new_exchange evs"

text \<open>What the log says: the settlements of the promise, and the calls of \<open>cleanup\<close>.\<close>

fun is_settle :: "'d effect \<Rightarrow> bool" where
  "is_settle (Settle out) = True"
| "is_settle e = False"

definition settlements :: "'d exchange \<Rightarrow> 'd effect list" where
  "settlements s = filter is_settle (effects s)"

definition destroys :: "'d exchange \<Rightarrow> nat" where
  "destroys s = length (filter (\<lambda>e. e = SocketDestroy) (effects s))"

definition removals :: "'d exchange \<Rightarrow> nat" where
  "removals s = length (filter (\<lambda>e. e = RemoveAllListeners) (effects s))"

section \<open>Batches\<close>

text \<open>
  \<open>runBatch\<close> awaits \<open>sendCommand\<close> once per command. The transport and the daemon behind
  it are a function from the state of the world and a request to the outcome of the exchange
  and the next state; an exchange always has an outcome, since its timer settles what is
  still pending. \<open>sent\<close> logs the commands handed to \<open>sendCommand\<close>.

  The \<open>catch\<close> branch takes a rejected exchange and also whatever the \<open>try\<close> body throws after
  it has pushed the resolved value: \<open>formatResponse\<close>, called when \<open>json\<close> is false, and the
  read of \<open>response.success\<close> on \<open>null\<close>. The text written to the console is left out.
\<close>

record 'w batch_state =
  results :: "jvalue list"
  hasError :: bool
  sent :: "request list"
  world :: 'w

definition errorResponse :: "request \<Rightarrow> string \<Rightarrow> jvalue" where
  "errorResponse cmd message =
     JObj [(''id'', JStr (to_String (get_prop cmd ''id''))), (''success'', JBool False),
           (''error'', JStr message)]"

definition caught :: "request \<Rightarrow> string \<Rightarrow> 'w batch_state \<Rightarrow> 'w batch_state" where
  "caught cmd message st =
     st\<lparr>results := results st @ [errorResponse cmd message], hasError := True\<rparr>"

fun runBatch_loop ::
  "('w \<Rightarrow> request \<Rightarrow> jvalue outcome \<times> 'w) \<Rightarrow> bool \<Rightarrow> request list \<Rightarrow> 'w batch_state
     \<Rightarrow> 'w batch_state" where
  "runBatch_loop send json [] st = st"
| "runBatch_loop send json (cmd # cmds) st =
     (case send (world st) cmd of
        (Rejected message, w) \<Rightarrow> caught cmd message (st\<lparr>sent := sent st @ [cmd], world := w\<rparr>)
      | (Resolved response, w) \<Rightarrow>
          let st1 = st\<lparr>results := results st @ [response], sent := sent st @ [cmd], world := w\<rparr>
          in (case (if json then None else formatResponse_error response) of
                Some message \<Rightarrow> caught cmd message st1
              | None \<Rightarrow>
                  if response = JNull then caught cmd null_read_error st1
                  else if \<not> truthy (field response ''success'') then st1\<lparr>hasError := True\<rparr>
                  else runBatch_loop send json cmds st1))"

text \<open>
  What \<open>runBatch\<close> computes after the loop: the fields of the aggregate it prints when \<open>json\<close>
  is true, which are also the numbers of its closing line otherwise, and the exit code.
\<close>

record batch_report =
  batch_success :: bool
  batch_results :: "jvalue list"
  completed :: nat
  total :: nat
  exit_code :: nat
  requests_sent :: "request list"

definition runBatch ::
  "('w \<Rightarrow> request \<Rightarrow> jvalue outcome \<times> 'w) \<Rightarrow> 'w \<Rightarrow> request list \<Rightarrow> bool \<Rightarrow> batch_report" where
  "runBatch send w commands json =
     (let st = runBatch_loop send json commands
                 \<lparr>results = [], hasError = False, sent = [], world = w\<rparr>
      in \<lparr>batch_success = \<not> hasError st,
          batch_results = results st,
          completed = length (results st),
          total = length commands,
          exit_code = (if hasError st then 1 else 0),
          requests_sent = sent st\<rparr>)"

section \<open>Notions of the specification\<close>

text \<open>
  A URL that carries a scheme: a scheme name (a letter, then letters, digits, \<open>+\<close>, \<open>-\<close>
  or \<open>.\<close>) followed by \<open>://\<close>. A bare host carries none.
\<close>

definition is_alpha :: "char \<Rightarrow> bool" where
  "is_alpha c = ((65 \<le> (of_char c :: nat) \<and> (of_char c :: nat) \<le> 90) \<or>
                 (97 \<le> (of_char c :: nat) \<and> (of_char c :: nat) \<le> 122))"

definition scheme_char :: "char \<Rightarrow> bool" where
  "scheme_char c = (is_alpha c \<or> is_digit c \<or> c = CHR ''+'' \<or> c = CHR ''-'' \<or> c = CHR ''.'')"

definition has_scheme :: "string \<Rightarrow> bool" where
  "has_scheme u =
     (let name = takeWhile scheme_char u
      in name \<noteq> [] \<and> is_alpha (hd name) \<and> prefix ''://'' (drop (length name) u))"

text \<open>
  The documented mapping from a command to the action of its request: the verbs of the
  command grammar, with \<open>open\<close>, \<open>goto\<close>, \<open>navigate\<close> going to \<open>navigate\<close>, \<open>close\<close> and
  \<open>quit\<close> to \<open>close\<close>, \<open>eval\<close> to \<open>evaluate\<close>, \<open>get text\<close> to \<open>gettext\<close>, \<open>get url\<close> and
  \<open>get title\<close> to \<open>url\<close> and \<open>title\<close>, and every other verb to itself.
\<close>

definition plain_verbs :: "string list" where
  "plain_verbs = [''click'', ''fill'', ''type'', ''hover'', ''snapshot'', ''screenshot'',
                  ''press'', ''wait'', ''back'', ''forward'', ''reload'']"

definition documented_action :: "string list \<Rightarrow> string option" where
  "documented_action parts =
     (case parts of
        [] \<Rightarrow> None
      | verb # rest \<Rightarrow>
          if verb = ''open'' \<or> verb = ''goto'' \<or> verb = ''navigate'' then Some ''navigate''
          else if verb = ''close'' \<or> verb = ''quit'' then Some ''close''
          else if verb = ''eval'' then Some ''evaluate''
          else if verb = ''get'' then
            (case rest of
               [] \<Rightarrow> None
             | what # _ \<Rightarrow>
                 if what = ''text'' then Some ''gettext''
                 else if what = ''url'' \<or> what = ''title'' then Some what
                 else None)
          else if verb \<in> set plain_verbs then Some verb
          else None)"

text \<open>
  The texts \<open>Math.random().toString(36)\<close> can give: \<open>0\<close> for the draw 0, and otherwise \<open>0.\<close>
  followed by at least one digit of radix 36.
\<close>

definition base36_digit :: "char \<Rightarrow> bool" where
  "base36_digit c = (is_digit c \<or> (97 \<le> (of_char c :: nat) \<and> (of_char c :: nat) \<le> 122))"

definition random_text :: "string \<Rightarrow> bool" where
  "random_text t =
     (t = ''0'' \<or> (prefix ''0.'' t \<and> 2 < length t \<and> list_all base36_digit (drop 2 t)))"

text \<open>The verbs the encoder knows, and those among them other than \<open>get\<close>.\<close>

definition supported_verbs :: "string list" where
  "supported_verbs =
     [''open'', ''goto'', ''navigate'', ''click'', ''fill'', ''type'', ''hover'', ''snapshot'',
      ''screenshot'', ''close'', ''quit'', ''get'', ''press'', ''wait'', ''back'', ''forward'',
      ''reload'', ''eval'']"

definition verbs_other_than_get :: "string list" where
  "verbs_other_than_get =
     [''open'', ''goto'', ''navigate'', ''click'', ''fill'', ''type'', ''hover'', ''snapshot'',
      ''screenshot'', ''close'', ''quit'', ''press'', ''wait'', ''back'', ''forward'', ''reload'',
      ''eval'']"

section \<open>Notions for the statements and the proofs\<close>

text \<open>
  The tokens of one command string of a batch, and the number of the draw that the encoder
  takes for each string of a batch: a string without tokens takes none.
\<close>

definition clean_parts :: "string \<Rightarrow> string list" where
  "clean_parts arg = map strip_quotes (match_all arg)"

fun draw_indices :: "nat \<Rightarrow> string list \<Rightarrow> nat list" where
  "draw_indices k [] = []"
| "draw_indices k (arg # args) =
     k # draw_indices (if clean_parts arg = [] then k else Suc k) args"

text \<open>
  A \<open>Response\<close> as the interface declares it: an object with a string \<open>id\<close>, a boolean
  \<open>success\<close>, any \<open>data\<close> or none, and a string \<open>error\<close> or none.
\<close>

definition is_Response :: "jvalue \<Rightarrow> bool" where
  "is_Response v =
     ((case field v ''id'' of Some (JStr i) \<Rightarrow> True | _ \<Rightarrow> False) \<and>
      (case field v ''success'' of Some (JBool b) \<Rightarrow> True | _ \<Rightarrow> False) \<and>
      (case field v ''error'' of None \<Rightarrow> True | Some (JStr e) \<Rightarrow> True | _ \<Rightarrow> False))"

text \<open>
  An exchange that resolves with a \<open>Response\<close> whose \<open>success\<close> is true, and which
  \<open>formatResponse\<close> prints where it is called; and one that resolves with a \<open>Response\<close> whose
  \<open>success\<close> is false.
\<close>

definition answers_success :: "bool \<Rightarrow> jvalue outcome \<Rightarrow> bool" where
  "answers_success json out =
     (case out of
        Resolved v \<Rightarrow> is_Response v \<and> field v ''success'' = Some (JBool True) \<and>
                      (json \<or> formatResponse_error v = None)
      | Rejected message \<Rightarrow> False)"

definition answers_failure :: "jvalue outcome \<Rightarrow> bool" where
  "answers_failure out =
     (case out of
        Resolved v \<Rightarrow> is_Response v \<and> field v ''success'' = Some (JBool False)
      | Rejected message \<Rightarrow> False)"

fun resolved_value :: "jvalue outcome \<Rightarrow> jvalue" where
  "resolved_value (Resolved v) = v"
| "resolved_value (Rejected message) = JNull"

text \<open>
  The outcome of each exchange of a batch, were every command sent in turn; whether an
  outcome lets the batch go on; the entries the batch records for an outcome; and the
  number of the command at which the batch stops (one past the end when none stops it).
\<close>

fun outcomes ::
  "('w \<Rightarrow> request \<Rightarrow> jvalue outcome \<times> 'w) \<Rightarrow> 'w \<Rightarrow> request list \<Rightarrow> jvalue outcome list" where
  "outcomes send w [] = []"
| "outcomes send w (cmd # cmds) = (case send w cmd of (out, w') \<Rightarrow> out # outcomes send w' cmds)"

fun continues :: "bool \<Rightarrow> jvalue outcome \<Rightarrow> bool" where
  "continues json (Resolved v) =
     ((json \<or> formatResponse_error v = None) \<and> v \<noteq> JNull \<and> truthy (field v ''success''))"
| "continues json (Rejected message) = False"

fun recorded :: "bool \<Rightarrow> request \<Rightarrow> jvalue outcome \<Rightarrow> jvalue list" where
  "recorded json cmd (Rejected message) = [errorResponse cmd message]"
| "recorded json cmd (Resolved v) =
     (case (if json then None else formatResponse_error v) of
        Some message \<Rightarrow> [v, errorResponse cmd message]
      | None \<Rightarrow> if v = JNull then [v, errorResponse cmd null_read_error] else [v])"

definition attempts ::
  "('w \<Rightarrow> request \<Rightarrow> jvalue outcome \<times> 'w) \<Rightarrow> bool \<Rightarrow> 'w \<Rightarrow> request list \<Rightarrow> nat" where
  "attempts send json w cmds = Suc (length (takeWhile (continues json) (outcomes send w cmds)))"

text \<open>
  What holds of an exchange after any events: \<open>resolved\<close> is set exactly when the promise
  is settled, \<open>cleanup\<close> has run at most once, and an unresolved exchange still listens and
  holds no newline.
\<close>

definition exchange_inv :: "'d exchange \<Rightarrow> bool" where
  "exchange_inv s =
     (removals s = destroys s \<and>
      (resolved s \<longrightarrow> length (settlements s) = 1 \<and> destroys s \<le> 1 \<and>
                       (listening s \<longleftrightarrow> destroys s = 0)) \<and>
      (\<not> resolved s \<longrightarrow> settlements s = [] \<and> destroys s = 0 \<and> listening s \<and>
                         CHR 0x0A \<notin> set (buffer s)))"

section \<open>Sample inputs\<close>

definition sample_draws :: "nat \<Rightarrow> string" where
  "sample_draws k = (if k = 0 then ''0.k2j5x9qa1'' else ''0.7fq0c3m8zz'')"

definition sample_ok :: "string \<Rightarrow> jvalue" where
  "sample_ok i = JObj [(''id'', JStr i), (''success'', JBool True)]"

definition sample_failed :: "string \<Rightarrow> jvalue" where
  "sample_failed i =
     JObj [(''id'', JStr i), (''success'', JBool False), (''error'', JStr ''Element not found'')]"

text \<open>A response whose snapshot cannot be converted to a string.\<close>

definition sample_unprintable :: "string \<Rightarrow> jvalue" where
  "sample_unprintable i =
     JObj [(''id'', JStr i), (''success'', JBool True),
           (''data'', JObj [(''snapshot'', JObj [(''toString'', JNum 1 0)])])]"

definition cmdA :: request where
  "cmdA = [(''id'', Str ''a1''), (''action'', Str ''navigate''), (''url'', Str ''https://example.com'')]"

definition cmdB :: request where
  "cmdB = [(''id'', Str ''b2''), (''action'', Str ''click''), (''selector'', Str ''#go'')]"

definition cmdC :: request where
  "cmdC = [(''id'', Str ''c3''), (''action'', Str ''title'')]"

text \<open>A daemon that answers from a script: the world is the list of outcomes still to come.\<close>

fun scripted ::
  "jvalue outcome list \<Rightarrow> request \<Rightarrow> jvalue outcome \<times> jvalue outcome list" where
  "scripted [] cmd = (Rejected ''Timeout'', [])"
| "scripted (out # outs) cmd = (out, outs)"

definition sample_parse :: "string \<Rightarrow> jvalue option" where
  "sample_parse t =
     (if t = ''{\"id\":\"a1\",\"success\":true}'' then Some (sample_ok ''a1'') else None)"

definition host_live :: host where
  "host_live =
     \<lparr>pid_file_exists = True, pid_file_text = Some (''4242'' @ [CHR 0x0A]),
      kill0 = (\<lambda>pid. pid = 4242), socket_exists = (\<lambda>k. True),
      path_exists = (\<lambda>p. p = ''/opt/agent-browser/dist/daemon.js''),
      beside_script = ''/opt/agent-browser/dist/daemon.js'',
      beside_dist = ''/opt/agent-browser/dist/daemon.js'',
      cwd_dist = ''/home/ada/dist/daemon.js''\<rparr>"

definition host_stale :: host where
  "host_stale = host_live\<lparr>kill0 := (\<lambda>pid. False)\<rparr>"

definition host_garbled :: host where
  "host_garbled = host_live\<lparr>pid_file_text := Some ''restarting''\<rparr>"

definition host_unmarked :: host where
  "host_unmarked = host_live\<lparr>pid_file_exists := False, pid_file_text := None\<rparr>"

section \<open>Properties of the command encoder\<close>

lemma at_index_Cons_0 [simp]: "at_index (x # xs) 0 = Str x"
  by (simp add: at_index_def)

lemma at_index_Nil [simp]: "at_index [] i = Undefined"
  by (simp add: at_index_def)

lemma at_index_Cons_Suc [simp]: "at_index (x # xs) (Suc i) = at_index xs i"
  by (simp add: at_index_def)

lemma digit_not_space: "is_digit c \<Longrightarrow> \<not> is_space c"
  by (auto simp: is_digit_def is_space_def)

lemma digit_not_sign: "is_digit c \<Longrightarrow> c \<noteq> CHR ''-'' \<and> c \<noteq> CHR ''+''"
  by (auto simp: is_digit_def)

lemma parseInt_digits:
  assumes "matches_digits s"
  shows "parseInt s = (case nearest_double (dec_value s) of
                         None \<Rightarrow> Infinity
                       | Some v \<Rightarrow> Num (int v))"
proof -
  from assms obtain c cs where s: "s = c # cs" and c: "is_digit c" and cs: "list_all is_digit cs"
    by (cases s) (auto simp: matches_digits_def)
  have tw: "takeWhile is_digit cs = cs"
    using cs by (simp add: list_all_iff)
  show ?thesis
    using s c digit_not_space [OF c] digit_not_sign [OF c]
    by (simp add: parseInt_def Let_def tw split: option.splits)
qed

lemma nearest_double_exact: "m < 2 ^ 53 \<Longrightarrow> nearest_double m = Some m"
  by (simp add: nearest_double_def)

text \<open>
  Beyond \<open>2 ^ 53\<close> the digits are rounded: \<open>9007199254740993\<close> reads as
  \<open>9007199254740992\<close>.
\<close>

lemma bit_length_example: "bit_length 9007199254740993 = 54"
  by (simp add: bit_length.simps)

lemma parseInt_rounds:
  "parseInt ''9007199254740993'' = Num 9007199254740992"
  by (simp add: parseInt_def is_space_def is_digit_def dec_value_def nearest_double_def
        bit_length_example)

text \<open>A run of digits that writes \<open>2 ^ 1024\<close> or more reads as \<open>Infinity\<close>.\<close>

lemma bit_length_bounds:
  "0 < m \<Longrightarrow> 2 ^ (bit_length m - 1) \<le> m \<and> m < 2 ^ bit_length m"
proof (induction m rule: bit_length.induct)
  case (1 n)
  show ?case
  proof (cases "n div 2 = 0")
    case True
    with "1.prems" have "n = 1" by (simp add: div_eq_0_iff; arith)
    moreover have "bit_length (Suc 0) = 1"
      by (simp add: bit_length.simps [of "Suc 0"] bit_length.simps [of 0])
    ultimately show ?thesis
      by simp
  next
    case False
    then have pos: "0 < n div 2" by simp
    from "1.IH" "1.prems" pos
    have ih: "2 ^ (bit_length (n div 2) - 1) \<le> n div 2" "n div 2 < 2 ^ bit_length (n div 2)"
      by simp_all
    have bl: "bit_length n = Suc (bit_length (n div 2))"
      using "1.prems" by (simp add: bit_length.simps [of n])
    have blpos: "0 < bit_length (n div 2)"
      using pos by (simp add: bit_length.simps [of "n div 2"])
    then have "(2::nat) ^ bit_length (n div 2) = 2 * 2 ^ (bit_length (n div 2) - 1)"
      by (cases "bit_length (n div 2)") simp_all
    then have lo: "2 ^ bit_length (n div 2) \<le> n"
      using ih(1) by (simp; arith)
    have hi: "n < 2 * 2 ^ bit_length (n div 2)"
      using ih(2) by arith
    show ?thesis
      using lo hi by (simp add: bl)
  qed
qed

lemma nearest_double_overflow:
  assumes "2 ^ 1024 \<le> m"
  shows "nearest_double m = None"
proof -
  have pos: "0 < m"
    using assms by (cases "m = 0") simp_all
  have big: "\<not> m < 2 ^ 53"
  proof
    assume "m < 2 ^ 53"
    with assms have "(2::nat) ^ 1024 < 2 ^ 53" by (rule le_less_trans)
    then show False by simp
  qed
  let ?b = "bit_length m"
  have b: "2 ^ (?b - 1) \<le> m" "m < 2 ^ ?b"
    using bit_length_bounds [OF pos] by simp_all
  have "(2::nat) ^ 1024 < 2 ^ ?b"
    using assms b(2) by (rule le_less_trans)
  then have b1024: "1024 < ?b"
    by (rule power_less_imp_less_exp [rotated]) simp
  let ?e = "?b - 53"
  have split: "?b - 1 = 52 + ?e" using b1024 by simp
  have "(2::nat) ^ 52 * 2 ^ ?e = 2 ^ (?b - 1)"
    unfolding split by (simp add: power_add)
  moreover have "(2::nat) ^ 1024 \<le> 2 ^ (?b - 1)"
    using b1024 by (intro power_increasing) simp_all
  ultimately have low: "(2::nat) ^ 1024 \<le> 2 ^ 52 * 2 ^ ?e" by simp
  have "2 ^ 52 * 2 ^ ?e \<le> m" 
    using b(1) \<open>(2::nat) ^ 52 * 2 ^ ?e = 2 ^ (?b - 1)\<close> by simp
  then have "2 ^ 52 \<le> m div 2 ^ ?e"
    by (simp add: less_eq_div_iff_mult_less_eq)
  then have q: "2 ^ 52 * 2 ^ ?e \<le> (m div 2 ^ ?e) * 2 ^ ?e"
    by simp
  have "(2::nat) ^ 1024 \<le> (m div 2 ^ ?e) * 2 ^ ?e"
    using low q by (rule le_trans)
  moreover have "(m div 2 ^ ?e) * 2 ^ ?e \<le> (m div 2 ^ ?e + 1) * 2 ^ ?e"
    by simp
  ultimately have "(2::nat) ^ 1024 \<le> (m div 2 ^ ?e + 1) * 2 ^ ?e" 
    and "(2::nat) ^ 1024 \<le> (m div 2 ^ ?e) * 2 ^ ?e"
    by (auto elim: le_trans)
  then show ?thesis
    using big by (simp add: nearest_double_def Let_def del: power_numeral)
qed

lemma parseInt_overflows:
  assumes "matches_digits s" and "2 ^ 1024 \<le> dec_value s"
  shows "parseInt s = Infinity"
  using parseInt_digits [OF assms(1)] nearest_double_overflow [OF assms(2)] by simp

lemma dec_value_large: "dec_value (CHR ''1'' # replicate 309 (CHR ''0'')) = 10 ^ 309"
proof -
  have "foldl (\<lambda>a c. 10 * a + (of_char c - 48)) a (replicate n (CHR ''0'')) = a * 10 ^ n"
    for a n :: nat
    by (induction n arbitrary: a) simp_all
  then show ?thesis
    by (simp add: dec_value_def)
qed

lemma get_prop_set_prop:
  "get_prop (set_prop obj k v) k' = (if k' = k then v else get_prop obj k')"
  by (induction obj) (auto simp: get_prop_def)

lemma snapshot_opts_keeps:
  assumes "k \<noteq> ''interactive''" "k \<noteq> ''compact''" "k \<noteq> ''maxDepth''" "k \<noteq> ''selector''"
  shows "get_prop (snapshot_opts rest opts) k = get_prop opts k"
  using assms by (induction rest opts rule: snapshot_opts.induct) (simp_all add: get_prop_set_prop)

lemma parseCommand_snapshot:
  "parseCommand rnd (''snapshot'' # args) =
     Some (snapshot_opts args [(''id'', Str (take 8 (drop 2 rnd))), (''action'', Str ''snapshot'')])"
  by (simp add: parseCommand_def)

lemma parseCommand_Nil: "parseCommand rnd [] = None"
  by (simp add: parseCommand_def)

lemma parseCommand_navigate:
  "verb = ''open'' \<or> verb = ''goto'' \<or> verb = ''navigate'' \<Longrightarrow>
   parseCommand rnd (verb # rest) =
     Some [(''id'', Str (take 8 (drop 2 rnd))), (''action'', Str ''navigate''),
           (''url'', if startsWith_http (at_index rest 0) then at_index rest 0
                     else Str (''https://'' @ to_String (at_index rest 0)))]"
  by (auto simp: parseCommand_def)

lemma parseCommand_click:
  "parseCommand rnd (''click'' # rest) =
     Some [(''id'', Str (take 8 (drop 2 rnd))), (''action'', Str ''click''),
           (''selector'', at_index rest 0)]"
  by (simp add: parseCommand_def)

lemma parseCommand_fill:
  "parseCommand rnd (''fill'' # rest) =
     Some [(''id'', Str (take 8 (drop 2 rnd))), (''action'', Str ''fill''),
           (''selector'', at_index rest 0), (''value'', Str (join_sp (drop 1 rest)))]"
  by (simp add: parseCommand_def)

lemma parseCommand_type:
  "parseCommand rnd (''type'' # rest) =
     Some [(''id'', Str (take 8 (drop 2 rnd))), (''action'', Str ''type''),
           (''selector'', at_index rest 0), (''text'', Str (join_sp (drop 1 rest)))]"
  by (simp add: parseCommand_def)

lemma parseCommand_hover:
  "parseCommand rnd (''hover'' # rest) =
     Some [(''id'', Str (take 8 (drop 2 rnd))), (''action'', Str ''hover''),
           (''selector'', at_index rest 0)]"
  by (simp add: parseCommand_def)

lemma parseCommand_screenshot:
  "parseCommand rnd (''screenshot'' # rest) =
     Some [(''id'', Str (take 8 (drop 2 rnd))), (''action'', Str ''screenshot''),
           (''path'', at_index rest 0)]"
  by (simp add: parseCommand_def)

lemma parseCommand_close:
  "verb = ''close'' \<or> verb = ''quit'' \<Longrightarrow>
   parseCommand rnd (verb # rest) =
     Some [(''id'', Str (take 8 (drop 2 rnd))), (''action'', Str ''close'')]"
  by (auto simp: parseCommand_def)

lemma parseCommand_get:
  "parseCommand rnd (''get'' # rest) =
     (if at_index rest 0 = Str ''text'' then
        Some [(''id'', Str (take 8 (drop 2 rnd))), (''action'', Str ''gettext''),
              (''selector'', at_index rest 1)]
      else if at_index rest 0 = Str ''url'' then
        Some [(''id'', Str (take 8 (drop 2 rnd))), (''action'', Str ''url'')]
      else if at_index rest 0 = Str ''title'' then
        Some [(''id'', Str (take 8 (drop 2 rnd))), (''action'', Str ''title'')]
      else None)"
  by (simp add: parseCommand_def)

lemma parseCommand_press:
  "parseCommand rnd (''press'' # rest) =
     Some [(''id'', Str (take 8 (drop 2 rnd))), (''action'', Str ''press''),
           (''key'', at_index rest 0)]"
  by (simp add: parseCommand_def)

lemma parseCommand_wait:
  "parseCommand rnd (''wait'' # rest) =
     (if test_digits (at_index rest 0) then
        Some [(''id'', Str (take 8 (drop 2 rnd))), (''action'', Str ''wait''),
              (''timeout'', Number (parseInt (to_String (at_index rest 0))))]
      else
        Some [(''id'', Str (take 8 (drop 2 rnd))), (''action'', Str ''wait''),
              (''selector'', at_index rest 0)])"
  by (simp add: parseCommand_def)

lemma parseCommand_history:
  "verb = ''back'' \<or> verb = ''forward'' \<or> verb = ''reload'' \<Longrightarrow>
   parseCommand rnd (verb # rest) =
     Some [(''id'', Str (take 8 (drop 2 rnd))), (''action'', Str verb)]"
  by (auto simp: parseCommand_def)

lemma parseCommand_eval:
  "parseCommand rnd (''eval'' # rest) =
     Some [(''id'', Str (take 8 (drop 2 rnd))), (''action'', Str ''evaluate''),
           (''script'', Str (join_sp rest))]"
  by (simp add: parseCommand_def)

lemma parseCommand_unknown:
  assumes "verb \<notin> set [''open'', ''goto'', ''navigate'', ''click'', ''fill'', ''type'', ''hover'',
                          ''snapshot'', ''screenshot'', ''close'', ''quit'', ''get'', ''press'',
                          ''wait'', ''back'', ''forward'', ''reload'', ''eval'']"
  shows "parseCommand rnd (verb # rest) = None"
  using assms by (simp add: parseCommand_def)

lemma documented_verbs:
  assumes "documented_action (verb # rest) = Some a"
  shows "verb = ''open'' \<or> verb = ''goto'' \<or> verb = ''navigate''
         \<or> verb = ''click'' \<or> verb = ''fill'' \<or> verb = ''type''
         \<or> verb = ''hover'' \<or> verb = ''snapshot'' \<or> verb = ''screenshot''
         \<or> verb = ''close'' \<or> verb = ''quit'' \<or> verb = ''get''
         \<or> verb = ''press'' \<or> verb = ''wait'' \<or> verb = ''back''
         \<or> verb = ''forward'' \<or> verb = ''reload'' \<or> verb = ''eval''"
proof (rule ccontr)
  assume "\<not> ?thesis"
  then have "documented_action (verb # rest) = None"
    by (simp add: documented_action_def plain_verbs_def)
  with assms show False by simp
qed

lemma encode_action_known:
  assumes doc: "documented_action (verb # rest) = Some a"
  shows "\<exists>r. parseCommand rnd (verb # rest) = Some r \<and> get_prop r ''action'' = Str a \<and>
             get_prop r ''id'' = Str (take 8 (drop 2 rnd))"
  using documented_verbs [OF doc]
proof (elim disjE)
  assume v: "verb = ''open''"
  have a: "a = ''navigate''"
    using doc unfolding v by (simp add: documented_action_def plain_verbs_def)
  show ?thesis
    unfolding v a by (simp add: parseCommand_navigate get_prop_def)
next
  assume v: "verb = ''goto''"
  have a: "a = ''navigate''"
    using doc unfolding v by (simp add: documented_action_def plain_verbs_def)
  show ?thesis
    unfolding v a by (simp add: parseCommand_navigate get_prop_def)
next
  assume v: "verb = ''navigate''"
  have a: "a = ''navigate''"
    using doc unfolding v by (simp add: documented_action_def plain_verbs_def)
  show ?thesis
    unfolding v a by (simp add: parseCommand_navigate get_prop_def)
next
  assume v: "verb = ''click''"
  have a: "a = ''click''"
    using doc unfolding v by (simp add: documented_action_def plain_verbs_def)
  show ?thesis
    unfolding v a by (simp add: parseCommand_click get_prop_def)
next
  assume v: "verb = ''fill''"
  have a: "a = ''fill''"
    using doc unfolding v by (simp add: documented_action_def plain_verbs_def)
  show ?thesis
    unfolding v a by (simp add: parseCommand_fill get_prop_def)
next
  assume v: "verb = ''type''"
  have a: "a = ''type''"
    using doc unfolding v by (simp add: documented_action_def plain_verbs_def)
  show ?thesis
    unfolding v a by (simp add: parseCommand_type get_prop_def)
next
  assume v: "verb = ''hover''"
  have a: "a = ''hover''"
    using doc unfolding v by (simp add: documented_action_def plain_verbs_def)
  show ?thesis
    unfolding v a by (simp add: parseCommand_hover get_prop_def)
next
  assume v: "verb = ''snapshot''"
  have "a = ''snapshot''"
    using doc unfolding v by (simp add: documented_action_def plain_verbs_def)
  moreover have "get_prop [(''id'', Str (take 8 (drop 2 rnd))), (''action'', Str ''snapshot'')]
                   ''action'' = Str ''snapshot''"
    and "get_prop [(''id'', Str (take 8 (drop 2 rnd))), (''action'', Str ''snapshot'')]
                   ''id'' = Str (take 8 (drop 2 rnd))"
    by (simp_all add: get_prop_def)
  ultimately show ?thesis
    unfolding v by (simp add: parseCommand_snapshot snapshot_opts_keeps)
next
  assume v: "verb = ''screenshot''"
  have a: "a = ''screenshot''"
    using doc unfolding v by (simp add: documented_action_def plain_verbs_def)
  show ?thesis
    unfolding v a by (simp add: parseCommand_screenshot get_prop_def)
next
  assume v: "verb = ''close''"
  have a: "a = ''close''"
    using doc unfolding v by (simp add: documented_action_def plain_verbs_def)
  show ?thesis
    unfolding v a by (simp add: parseCommand_close get_prop_def)
next
  assume v: "verb = ''quit''"
  have a: "a = ''close''"
    using doc unfolding v by (simp add: documented_action_def plain_verbs_def)
  show ?thesis
    unfolding v a by (simp add: parseCommand_close get_prop_def)
next
  assume v: "verb = ''get''"
  obtain what others where rest: "rest = what # others"
    using doc unfolding v by (cases rest) (simp_all add: documented_action_def)
  have "(what = ''text'' \<and> a = ''gettext'') \<or> (what = ''url'' \<and> a = ''url'')
          \<or> (what = ''title'' \<and> a = ''title'')"
    using doc unfolding v rest by (auto simp: documented_action_def split: if_splits)
  then show ?thesis
    unfolding v rest by (auto simp: parseCommand_get get_prop_def)
next
  assume v: "verb = ''press''"
  have a: "a = ''press''"
    using doc unfolding v by (simp add: documented_action_def plain_verbs_def)
  show ?thesis
    unfolding v a by (simp add: parseCommand_press get_prop_def)
next
  assume v: "verb = ''wait''"
  have a: "a = ''wait''"
    using doc unfolding v by (simp add: documented_action_def plain_verbs_def)
  show ?thesis
    unfolding v a by (simp add: parseCommand_wait get_prop_def)
next
  assume v: "verb = ''back''"
  have a: "a = ''back''"
    using doc unfolding v by (simp add: documented_action_def plain_verbs_def)
  show ?thesis
    unfolding v a by (simp add: parseCommand_history get_prop_def)
next
  assume v: "verb = ''forward''"
  have a: "a = ''forward''"
    using doc unfolding v by (simp add: documented_action_def plain_verbs_def)
  show ?thesis
    unfolding v a by (simp add: parseCommand_history get_prop_def)
next
  assume v: "verb = ''reload''"
  have a: "a = ''reload''"
    using doc unfolding v by (simp add: documented_action_def plain_verbs_def)
  show ?thesis
    unfolding v a by (simp add: parseCommand_history get_prop_def)
next
  assume v: "verb = ''eval''"
  have a: "a = ''evaluate''"
    using doc unfolding v by (simp add: documented_action_def plain_verbs_def)
  show ?thesis
    unfolding v a by (simp add: parseCommand_eval get_prop_def)
qed

text \<open>
  What the encoder computes for the verbs \<open>open\<close>, \<open>goto\<close> and \<open>navigate\<close> with a URL argument:
  the action \<open>navigate\<close>, and as \<open>url\<close> the argument unchanged when it starts with the four
  characters \<open>http\<close>, and prefixed with \<open>https://\<close> otherwise.
\<close>

theorem navigate_url_by_http_prefix:
  assumes "verb = ''open'' \<or> verb = ''goto'' \<or> verb = ''navigate''"
  shows "parseCommand rnd (verb # u # extra) =
           Some [(''id'', Str (take 8 (drop 2 rnd))), (''action'', Str ''navigate''),
                 (''url'', Str (if prefix ''http'' u then u else ''https://'' @ u))]"
  using assms by (auto simp: parseCommand_navigate startsWith_http_def)

theorem navigate_url_by_http_prefix_witness:
  "parseCommand ''0.k2j5x9qa1'' [''goto'', ''example.com''] =
     Some [(''id'', Str ''k2j5x9qa''), (''action'', Str ''navigate''),
           (''url'', Str ''https://example.com'')]"
  using navigate_url_by_http_prefix [of "''goto''" "''0.k2j5x9qa1''" "''example.com''" "[]"]
  by simp

text \<open>
  C5 asks that a bare host is prefixed with \<open>https://\<close> and any other argument left
  unchanged. The encoder looks for a scheme by testing whether the argument starts with
  \<open>http\<close>: \<open>httpbin.org\<close> is a bare host without a scheme, and its \<open>url\<close> is left without
  the prefix.
\<close>

theorem navigate_leaves_bare_host_unprefixed:
  "\<not> has_scheme ''httpbin.org'' \<and>
   parseCommand ''0.k2j5x9qa1'' [''open'', ''httpbin.org''] =
     Some [(''id'', Str ''k2j5x9qa''), (''action'', Str ''navigate''),
           (''url'', Str ''httpbin.org'')]"
  by (simp add: has_scheme_def scheme_char_def is_alpha_def is_digit_def parseCommand_def
        startsWith_http_def)

text \<open>In the other direction, an argument with another scheme is prefixed all the same.\<close>

lemma navigate_other_scheme_prefixed:
  "has_scheme ''ftp://example.com'' \<and>
   parseCommand ''0.k2j5x9qa1'' [''open'', ''ftp://example.com''] =
     Some [(''id'', Str ''k2j5x9qa''), (''action'', Str ''navigate''),
           (''url'', Str ''https://ftp://example.com'')]"
  by (simp add: has_scheme_def scheme_char_def is_alpha_def is_digit_def parseCommand_def
        startsWith_http_def)

text \<open>
  C6: for every argument string \<open>s\<close>, the request of \<open>wait s\<close> has a numeric \<open>timeout\<close>, the
  number \<open>parseInt\<close> reads from \<open>s\<close>, exactly when \<open>s\<close> matches \<open>^\d+$\<close>, and the \<open>selector\<close> \<open>s\<close>
  otherwise; nothing but the match decides (the draw and further tokens do not). The number
  read is never \<open>NaN\<close>: it is the double nearest to the integer the digits write, that
  integer itself below \<open>2 ^ 53\<close>, and \<open>Infinity\<close> from \<open>2 ^ 1024\<close> on.
\<close>

theorem wait_disambiguation:
  "parseCommand rnd (''wait'' # s # extra) =
     Some [(''id'', Str (take 8 (drop 2 rnd))), (''action'', Str ''wait''),
           (if matches_digits s then (''timeout'', Number (parseInt s))
            else (''selector'', Str s))] \<and>
   (matches_digits s \<longrightarrow>
      parseInt s \<noteq> NaN \<and>
      parseInt s = (case nearest_double (dec_value s) of
                      None \<Rightarrow> Infinity
                    | Some v \<Rightarrow> Num (int v)) \<and>
      (dec_value s < 2 ^ 53 \<longrightarrow> parseInt s = Num (int (dec_value s))) \<and>
      (2 ^ 1024 \<le> dec_value s \<longrightarrow> parseInt s = Infinity))"
proof (cases "matches_digits s")
  case True
  have read: "parseInt s = (case nearest_double (dec_value s) of
                              None \<Rightarrow> Infinity
                            | Some v \<Rightarrow> Num (int v))"
    using True by (rule parseInt_digits)
  have numeric: "parseInt s \<noteq> NaN"
    unfolding read by (simp split: option.splits)
  have exact: "dec_value s < 2 ^ 53 \<longrightarrow> parseInt s = Num (int (dec_value s))"
    unfolding read by (simp add: nearest_double_exact)
  have beyond: "2 ^ 1024 \<le> dec_value s \<longrightarrow> parseInt s = Infinity"
    using True by (auto intro: parseInt_overflows)
  have "parseCommand rnd (''wait'' # s # extra) =
     Some [(''id'', Str (take 8 (drop 2 rnd))), (''action'', Str ''wait''),
           (''timeout'', Number (parseInt s))]"
    using True by (simp add: parseCommand_wait test_digits_def)
  then show ?thesis
    using True read numeric exact beyond by simp
next
  case False
  then show ?thesis
    by (simp add: parseCommand_wait test_digits_def)
qed

theorem wait_disambiguation_witness:
  "matches_digits ''500'' \<and> \<not> matches_digits ''#sel'' \<and>
   parseCommand ''0.k2j5x9qa1'' [''wait'', ''500''] =
     Some [(''id'', Str ''k2j5x9qa''), (''action'', Str ''wait''), (''timeout'', Number (Num 500))] \<and>
   parseCommand ''0.k2j5x9qa1'' [''wait'', ''#sel''] =
     Some [(''id'', Str ''k2j5x9qa''), (''action'', Str ''wait''), (''selector'', Str ''#sel'')] \<and>
   matches_digits (CHR ''1'' # replicate 309 (CHR ''0'')) \<and>
   2 ^ 1024 \<le> dec_value (CHR ''1'' # replicate 309 (CHR ''0'')) \<and>
   parseCommand ''0.k2j5x9qa1'' [''wait'', CHR ''1'' # replicate 309 (CHR ''0'')] =
     Some [(''id'', Str ''k2j5x9qa''), (''action'', Str ''wait''), (''timeout'', Number Infinity)]"
proof -
  have small: "matches_digits ''500''" "\<not> matches_digits ''#sel''" "dec_value ''500'' = 500"
    by (simp_all add: matches_digits_def is_digit_def dec_value_def)
  have large: "matches_digits (CHR ''1'' # replicate 309 (CHR ''0''))"
    by (simp add: matches_digits_def is_digit_def list_all_iff)
  have beyond: "2 ^ 1024 \<le> dec_value (CHR ''1'' # replicate 309 (CHR ''0''))"
    by (simp add: dec_value_large)
  have a: "parseCommand ''0.k2j5x9qa1'' [''wait'', ''500''] =
     Some [(''id'', Str ''k2j5x9qa''), (''action'', Str ''wait''), (''timeout'', Number (Num 500))]"
    using wait_disambiguation [of "''0.k2j5x9qa1''" "''500''" "[]"] small
    by (simp add: nearest_double_def)
  have b: "parseCommand ''0.k2j5x9qa1'' [''wait'', ''#sel''] =
     Some [(''id'', Str ''k2j5x9qa''), (''action'', Str ''wait''), (''selector'', Str ''#sel'')]"
    using wait_disambiguation [of "''0.k2j5x9qa1''" "''#sel''" "[]"] small by simp
  have c: "parseCommand ''0.k2j5x9qa1'' [''wait'', CHR ''1'' # replicate 309 (CHR ''0'')] =
     Some [(''id'', Str ''k2j5x9qa''), (''action'', Str ''wait''), (''timeout'', Number Infinity)]"
  proof -
    note w = wait_disambiguation [of "''0.k2j5x9qa1''" "CHR ''1'' # replicate 309 (CHR ''0'')" "[]"]
    have inf: "parseInt (CHR ''1'' # replicate 309 (CHR ''0'')) = Infinity"
      using w large beyond by blast
    have "parseCommand ''0.k2j5x9qa1'' [''wait'', CHR ''1'' # replicate 309 (CHR ''0'')] =
       Some [(''id'', Str (take 8 (drop 2 ''0.k2j5x9qa1''))), (''action'', Str ''wait''),
             (''timeout'', Number (parseInt (CHR ''1'' # replicate 309 (CHR ''0''))))]"
      using w [THEN conjunct1] large by (simp only: if_True)
    then show ?thesis
      unfolding inf by simp
  qed
  show ?thesis
    using small(1,2) large beyond a b c by blast
qed

text \<open>
  C8, as the code has it: for every command with a documented action the request has that
  action, and its \<open>id\<close> is the third to tenth character of the text of the random draw:
  a string of at most eight characters, non-empty for every draw other than 0.
\<close>

theorem encode_action_and_id:
  assumes "documented_action parts = Some a"
  shows "\<exists>r. parseCommand rnd parts = Some r \<and> get_prop r ''action'' = Str a \<and>
             get_prop r ''id'' = Str (take 8 (drop 2 rnd)) \<and>
             (random_text rnd \<and> rnd \<noteq> ''0'' \<longrightarrow> take 8 (drop 2 rnd) \<noteq> [])"
proof -
  have nonempty: "random_text rnd \<and> rnd \<noteq> ''0'' \<longrightarrow> take 8 (drop 2 rnd) \<noteq> []"
    by (auto simp: random_text_def)
  from assms obtain verb rest where parts: "parts = verb # rest"
    by (cases parts) (auto simp: documented_action_def)
  show ?thesis
    using encode_action_known [of verb rest a rnd] assms parts nonempty by simp
qed

theorem encode_action_and_id_witness:
  "documented_action [''get'', ''text'', ''#main''] = Some ''gettext'' \<and>
   random_text ''0.k2j5x9qa1'' \<and>
   (\<exists>r. parseCommand ''0.k2j5x9qa1'' [''get'', ''text'', ''#main''] = Some r \<and>
        get_prop r ''action'' = Str ''gettext'' \<and> get_prop r ''id'' = Str ''k2j5x9qa'')"
proof -
  have doc: "documented_action [''get'', ''text'', ''#main''] = Some ''gettext''"
    by (simp add: documented_action_def)
  have rnd: "random_text ''0.k2j5x9qa1''"
    by (simp add: random_text_def base36_digit_def is_digit_def)
  show ?thesis
    using doc rnd encode_action_and_id [OF doc, of "''0.k2j5x9qa1''"] by simp
qed

text \<open>
  C8 as stated fails at the draw 0, whose text is \<open>0\<close>: the \<open>id\<close> is the empty string.
\<close>

theorem encode_empty_id_counterexample:
  "random_text ''0'' \<and>
   parseCommand ''0'' [''click'', ''#submit''] =
     Some [(''id'', Str []), (''action'', Str ''click''), (''selector'', Str ''#submit'')]"
  by (simp add: random_text_def parseCommand_click)

text \<open>
  The tokens of \<open>fill "a b" "c d"\<close>: a quoted stretch is one token, its quotes stripped.
  An unclosed quote ends a token and is skipped.
\<close>

lemma tokenization_examples:
  "clean_parts ''fill \"a b\" \"c d\"'' = [''fill'', ''a b'', ''c d'']"
  "clean_parts ''open  example.com'' = [''open'', ''example.com'']"
  "clean_parts ''type #q say\"hi there\"now'' = [''type'', ''#q'', ''say\"hi there\"now'']"
  "clean_parts ''ab\"cd ef'' = [''ab'', ''cd'', ''ef'']"
  by (simp_all add: clean_parts_def match_all_def strip_quotes_def dquote_def is_space_def
        emit_def)

lemma parseBatchCommands_loop_eq:
  "parseBatchCommands_loop rand k args commands =
     commands @ List.map_filter (\<lambda>(i, arg). parseCommand (rand i) (clean_parts arg))
                  (zip (draw_indices k args) args)"
proof (induction args arbitrary: k commands)
  case Nil
  then show ?case by (simp add: List.map_filter_simps)
next
  case (Cons arg args)
  show ?case
  proof (cases "clean_parts arg = []")
    case True
    then show ?thesis
      using Cons.IH [of k commands]
      by (simp add: clean_parts_def List.map_filter_simps parseCommand_Nil)
  next
    case False
    then show ?thesis
      using Cons.IH [of "Suc k"]
      by (simp add: clean_parts_def List.map_filter_simps split: option.splits)
  qed
qed

text \<open>
  C7: the encoder returns null for the empty token list, for every token list whose first
  token is not a supported verb, and for \<open>get\<close> followed by anything other than \<open>text\<close>,
  \<open>url\<close> or \<open>title\<close> (nothing included); and the requests of a batch are the encodings of
  its command strings that are not null, each string tokenized and encoded on its own, in
  the order of the strings.
\<close>

theorem unsupported_is_null_and_dropped:
  "parseCommand rnd [] = None \<and>
   (verb \<notin> set supported_verbs
      \<longrightarrow> parseCommand rnd (verb # rest) = None) \<and>
   (at_index rest 0 \<notin> {Str ''text'', Str ''url'', Str ''title''}
      \<longrightarrow> parseCommand rnd (''get'' # rest) = None) \<and>
   parseBatchCommands rand args =
     List.map_filter (\<lambda>(i, arg). parseCommand (rand i) (clean_parts arg))
       (zip (draw_indices 0 args) args)"
  using parseCommand_unknown [of verb rnd rest]
  by (simp add: supported_verbs_def parseCommand_Nil parseCommand_get parseBatchCommands_def
        parseBatchCommands_loop_eq)

theorem unsupported_is_null_and_dropped_witness:
  "''scroll'' \<notin> set supported_verbs \<and>
   at_index [''html'', ''#a''] 0 \<notin> {Str ''text'', Str ''url'', Str ''title''} \<and>
   parseCommand ''0.k2j5x9qa1'' [''scroll'', ''down''] = None \<and>
   parseCommand ''0.k2j5x9qa1'' [''get'', ''html'', ''#a''] = None \<and>
   parseBatchCommands sample_draws [''open example.com'', ''scroll down'', ''get title''] =
     [[(''id'', Str ''k2j5x9qa''), (''action'', Str ''navigate''),
       (''url'', Str ''https://example.com'')],
      [(''id'', Str ''7fq0c3m8''), (''action'', Str ''title'')]]"
  using unsupported_is_null_and_dropped
          [of "''0.k2j5x9qa1''" "''scroll''" "[''down'']" sample_draws
              "[''open example.com'', ''scroll down'', ''get title'']"]
        unsupported_is_null_and_dropped
          [of "''0.k2j5x9qa1''" "''get''" "[''html'', ''#a'']" sample_draws "[]"]
  by (simp add: supported_verbs_def clean_parts_def match_all_def strip_quotes_def dquote_def is_space_def emit_def
        sample_draws_def List.map_filter_simps parseCommand_navigate parseCommand_get
        parseCommand_unknown startsWith_http_def)

lemma parseCommand_total:
  assumes "verb \<in> set verbs_other_than_get"
  shows "parseCommand rnd (verb # rest) \<noteq> None"
proof -
  from assms have
    "verb = ''open'' \<or> verb = ''goto'' \<or> verb = ''navigate'' \<or> verb = ''click'' \<or>
     verb = ''fill'' \<or> verb = ''type'' \<or> verb = ''hover'' \<or> verb = ''snapshot'' \<or>
     verb = ''screenshot'' \<or> verb = ''close'' \<or> verb = ''quit'' \<or> verb = ''press'' \<or>
     verb = ''wait'' \<or> verb = ''back'' \<or> verb = ''forward'' \<or> verb = ''reload'' \<or>
     verb = ''eval''"
    by (simp add: verbs_other_than_get_def)
  then show ?thesis
    by (elim disjE)
       (simp_all add: parseCommand_navigate parseCommand_click parseCommand_fill
          parseCommand_type parseCommand_hover parseCommand_snapshot parseCommand_screenshot
          parseCommand_close parseCommand_press parseCommand_wait parseCommand_history
          parseCommand_eval)
qed

text \<open>
  C10, as the code has it: the encoder returns a request for every verb other than \<open>get\<close>
  and every argument list. Where an argument is missing, a selector, path, key or
  \<open>--selector\<close> value is \<open>undefined\<close>, the joined text of \<open>fill\<close>, \<open>type\<close> and \<open>eval\<close> is the empty
  string, the \<open>--depth\<close> value is \<open>NaN\<close>, and \<open>open\<close>, \<open>goto\<close> and \<open>navigate\<close> give the \<open>url\<close>
  \<open>https://undefined\<close>.
\<close>

theorem encode_total_on_missing_arguments:
  "(verb \<in> set verbs_other_than_get \<longrightarrow> parseCommand rnd (verb # rest) \<noteq> None) \<and>
   (verb = ''open'' \<or> verb = ''goto'' \<or> verb = ''navigate'' \<longrightarrow>
      parseCommand rnd [verb] =
        Some [(''id'', Str (take 8 (drop 2 rnd))), (''action'', Str ''navigate''),
              (''url'', Str ''https://undefined'')]) \<and>
   (verb = ''click'' \<or> verb = ''hover'' \<or> verb = ''wait'' \<longrightarrow>
      parseCommand rnd [verb] =
        Some [(''id'', Str (take 8 (drop 2 rnd))), (''action'', Str verb),
              (''selector'', Undefined)]) \<and>
   parseCommand rnd [''screenshot''] =
     Some [(''id'', Str (take 8 (drop 2 rnd))), (''action'', Str ''screenshot''),
           (''path'', Undefined)] \<and>
   parseCommand rnd [''press''] =
     Some [(''id'', Str (take 8 (drop 2 rnd))), (''action'', Str ''press''), (''key'', Undefined)] \<and>
   parseCommand rnd [''fill''] =
     Some [(''id'', Str (take 8 (drop 2 rnd))), (''action'', Str ''fill''),
           (''selector'', Undefined), (''value'', Str [])] \<and>
   parseCommand rnd [''fill'', sel] =
     Some [(''id'', Str (take 8 (drop 2 rnd))), (''action'', Str ''fill''),
           (''selector'', Str sel), (''value'', Str [])] \<and>
   parseCommand rnd [''type''] =
     Some [(''id'', Str (take 8 (drop 2 rnd))), (''action'', Str ''type''),
           (''selector'', Undefined), (''text'', Str [])] \<and>
   parseCommand rnd [''type'', sel] =
     Some [(''id'', Str (take 8 (drop 2 rnd))), (''action'', Str ''type''),
           (''selector'', Str sel), (''text'', Str [])] \<and>
   parseCommand rnd [''eval''] =
     Some [(''id'', Str (take 8 (drop 2 rnd))), (''action'', Str ''evaluate''),
           (''script'', Str [])] \<and>
   (flag_depth flag \<longrightarrow>
      parseCommand rnd [''snapshot'', flag] =
        Some [(''id'', Str (take 8 (drop 2 rnd))), (''action'', Str ''snapshot''),
              (''maxDepth'', Number NaN)]) \<and>
   (flag_selector flag \<longrightarrow>
      parseCommand rnd [''snapshot'', flag] =
        Some [(''id'', Str (take 8 (drop 2 rnd))), (''action'', Str ''snapshot''),
              (''selector'', Undefined)])"
proof -
  have total: "verb \<in> set verbs_other_than_get \<longrightarrow> parseCommand rnd (verb # rest) \<noteq> None"
    using parseCommand_total by blast
  have nav: "verb = ''open'' \<or> verb = ''goto'' \<or> verb = ''navigate'' \<longrightarrow>
      parseCommand rnd [verb] =
        Some [(''id'', Str (take 8 (drop 2 rnd))), (''action'', Str ''navigate''),
              (''url'', Str ''https://undefined'')]"
    by (auto simp: parseCommand_navigate startsWith_http_def)
  have sel: "verb = ''click'' \<or> verb = ''hover'' \<or> verb = ''wait'' \<longrightarrow>
      parseCommand rnd [verb] =
        Some [(''id'', Str (take 8 (drop 2 rnd))), (''action'', Str verb),
              (''selector'', Undefined)]"
    by (auto simp: parseCommand_click parseCommand_hover parseCommand_wait test_digits_def
          matches_digits_def is_digit_def)
  have depth: "flag_depth flag \<longrightarrow>
      parseCommand rnd [''snapshot'', flag] =
        Some [(''id'', Str (take 8 (drop 2 rnd))), (''action'', Str ''snapshot''),
              (''maxDepth'', Number NaN)]"
    by (auto simp: parseCommand_snapshot flag_depth_def flag_interactive_def flag_compact_def
          parseInt_def is_space_def is_digit_def)
  have selector: "flag_selector flag \<longrightarrow>
      parseCommand rnd [''snapshot'', flag] =
        Some [(''id'', Str (take 8 (drop 2 rnd))), (''action'', Str ''snapshot''),
              (''selector'', Undefined)]"
    by (auto simp: parseCommand_snapshot flag_depth_def flag_interactive_def flag_compact_def
          flag_selector_def)
  show ?thesis
    using total nav sel depth selector
    by (simp add: parseCommand_screenshot parseCommand_press parseCommand_fill
          parseCommand_type parseCommand_eval)
qed

theorem encode_total_on_missing_arguments_witness:
  "''fill'' \<in> set verbs_other_than_get \<and> flag_depth ''-d'' \<and> flag_selector ''--selector'' \<and>
   parseCommand ''0.k2j5x9qa1'' [''fill'', ''#name'', ''Ada'', ''Lovelace''] \<noteq> None \<and>
   parseCommand ''0.k2j5x9qa1'' [''goto''] =
     Some [(''id'', Str ''k2j5x9qa''), (''action'', Str ''navigate''),
           (''url'', Str ''https://undefined'')] \<and>
   parseCommand ''0.k2j5x9qa1'' [''hover''] =
     Some [(''id'', Str ''k2j5x9qa''), (''action'', Str ''hover''), (''selector'', Undefined)] \<and>
   parseCommand ''0.k2j5x9qa1'' [''fill'', ''#name''] =
     Some [(''id'', Str ''k2j5x9qa''), (''action'', Str ''fill''), (''selector'', Str ''#name''),
           (''value'', Str [])] \<and>
   parseCommand ''0.k2j5x9qa1'' [''snapshot'', ''-d''] =
     Some [(''id'', Str ''k2j5x9qa''), (''action'', Str ''snapshot''),
           (''maxDepth'', Number NaN)] \<and>
   parseCommand ''0.k2j5x9qa1'' [''snapshot'', ''--selector''] =
     Some [(''id'', Str ''k2j5x9qa''), (''action'', Str ''snapshot''),
           (''selector'', Undefined)]"
  using encode_total_on_missing_arguments
          [of "''fill''" "''0.k2j5x9qa1''" "[''#name'', ''Ada'', ''Lovelace'']" "''#name''" "''-d''"]
        encode_total_on_missing_arguments
          [of "''goto''" "''0.k2j5x9qa1''" "[]" "''#name''" "''--selector''"]
        encode_total_on_missing_arguments
          [of "''hover''" "''0.k2j5x9qa1''" "[]" "''#name''" "''--selector''"]
  by (simp add: verbs_other_than_get_def flag_depth_def flag_selector_def)

text \<open>
  C10 as stated fails: \<open>eval\<close> without a script gives the empty string as script, not
  \<open>undefined\<close>.
\<close>

theorem encode_missing_text_counterexample:
  "parseCommand ''0.k2j5x9qa1'' [''eval''] =
     Some [(''id'', Str ''k2j5x9qa''), (''action'', Str ''evaluate''), (''script'', Str [])] \<and>
   Str [] \<noteq> Undefined"
  by (simp add: parseCommand_eval)

section \<open>Properties of the batch executor\<close>

lemma length_outcomes [simp]: "length (outcomes send w cmds) = length cmds"
  by (induction cmds arbitrary: w) (auto split: prod.splits)

lemma continues_recorded: "continues json out \<Longrightarrow> recorded json cmd out = [resolved_value out]"
  by (cases out) (auto split: option.splits)

lemma loop_continues:
  assumes "send (world st) cmd = (out, w)" and "continues json out"
  shows "runBatch_loop send json (cmd # cmds) st =
           runBatch_loop send json cmds
             (st\<lparr>results := results st @ [resolved_value out], sent := sent st @ [cmd], world := w\<rparr>)"
  using assms by (cases out) (auto simp: Let_def split: option.splits)

lemma loop_stops:
  assumes "send (world st) cmd = (out, w)" and "\<not> continues json out"
  shows "runBatch_loop send json (cmd # cmds) st =
           st\<lparr>results := results st @ recorded json cmd out, hasError := True,
              sent := sent st @ [cmd], world := w\<rparr>"
  using assms by (cases out) (auto simp: Let_def caught_def split: option.splits)

lemma attempts_continues:
  assumes "send w0 cmd = (out, w)" and "continues json out"
  shows "attempts send json w0 (cmd # cmds) = Suc (attempts send json w cmds)"
  using assms by (simp add: attempts_def)

lemma attempts_stops:
  assumes "send w0 cmd = (out, w)" and "\<not> continues json out"
  shows "attempts send json w0 (cmd # cmds) = 1"
  using assms by (simp add: attempts_def)

lemma runBatch_loop_results:
  "results (runBatch_loop send json cmds st) =
     results st @ concat (map2 (recorded json) (take (attempts send json (world st) cmds) cmds)
                    (take (attempts send json (world st) cmds) (outcomes send (world st) cmds)))"
proof (induction cmds arbitrary: st)
  case Nil
  then show ?case by simp
next
  case (Cons cmd cmds)
  obtain out w where sd: "send (world st) cmd = (out, w)"
    by (cases "send (world st) cmd")
  show ?case
  proof (cases "continues json out")
    case True
    let ?st1 = "st\<lparr>results := results st @ [resolved_value out], sent := sent st @ [cmd], world := w\<rparr>"
    have "results (runBatch_loop send json (cmd # cmds) st) = results (runBatch_loop send json cmds ?st1)"
      using loop_continues [where send = send and st = st, OF sd True] by simp
    also have "\<dots> = results ?st1 @ concat (map2 (recorded json) (take (attempts send json w cmds) cmds)
                    (take (attempts send json w cmds) (outcomes send w cmds)))"
      using Cons.IH [of ?st1] by simp
    finally show ?thesis
      using sd True by (simp add: attempts_continues [where send = send and ?w0.0 = "world st", OF sd True] continues_recorded)
  next
    case False
    then show ?thesis
      using sd by (simp add: loop_stops [where send = send and st = st, OF sd False] attempts_stops [where send = send and ?w0.0 = "world st", OF sd False] del: runBatch_loop.simps)
  qed
qed

lemma runBatch_loop_sent:
  "sent (runBatch_loop send json cmds st) = sent st @ take (attempts send json (world st) cmds) cmds"
proof (induction cmds arbitrary: st)
  case Nil
  then show ?case by simp
next
  case (Cons cmd cmds)
  obtain out w where sd: "send (world st) cmd = (out, w)"
    by (cases "send (world st) cmd")
  show ?case
  proof (cases "continues json out")
    case True
    let ?st1 = "st\<lparr>results := results st @ [resolved_value out], sent := sent st @ [cmd], world := w\<rparr>"
    have "sent (runBatch_loop send json (cmd # cmds) st) = sent (runBatch_loop send json cmds ?st1)"
      using loop_continues [where send = send and st = st, OF sd True] by simp
    also have "\<dots> = sent ?st1 @ take (attempts send json w cmds) cmds"
      using Cons.IH [of ?st1] by simp
    finally show ?thesis
      by (simp add: attempts_continues [where send = send and ?w0.0 = "world st", OF sd True])
  next
    case False
    then show ?thesis
      by (simp add: loop_stops [where send = send and st = st, OF sd False] attempts_stops [where send = send and ?w0.0 = "world st", OF sd False] del: runBatch_loop.simps)
  qed
qed

lemma runBatch_loop_hasError:
  "hasError (runBatch_loop send json cmds st) =
     (hasError st \<or> attempts send json (world st) cmds \<le> length cmds)"
proof (induction cmds arbitrary: st)
  case Nil
  then show ?case by (simp add: attempts_def)
next
  case (Cons cmd cmds)
  obtain out w where sd: "send (world st) cmd = (out, w)"
    by (cases "send (world st) cmd")
  show ?case
  proof (cases "continues json out")
    case True
    let ?st1 = "st\<lparr>results := results st @ [resolved_value out], sent := sent st @ [cmd], world := w\<rparr>"
    have "hasError (runBatch_loop send json (cmd # cmds) st) = hasError (runBatch_loop send json cmds ?st1)"
      using loop_continues [where send = send and st = st, OF sd True] by simp
    also have "\<dots> = (hasError ?st1 \<or> attempts send json w cmds \<le> length cmds)"
      using Cons.IH [of ?st1] by simp
    finally show ?thesis
      by (simp add: attempts_continues [where send = send and ?w0.0 = "world st", OF sd True])
  next
    case False
    then show ?thesis
      by (simp add: loop_stops [where send = send and st = st, OF sd False] attempts_stops [where send = send and ?w0.0 = "world st", OF sd False] del: runBatch_loop.simps)
  qed
qed

text \<open>Every exchange records one entry, or two when the \<open>try\<close> body throws after its push.\<close>

lemma runBatch_loop_counts:
  "length (results (runBatch_loop send json cmds st)) - length (results st) =
     length (sent (runBatch_loop send json cmds st)) - length (sent st) \<or>
   length (results (runBatch_loop send json cmds st)) - length (results st) =
     Suc (length (sent (runBatch_loop send json cmds st)) - length (sent st))"
proof (induction cmds arbitrary: st)
  case Nil
  then show ?case by simp
next
  case (Cons cmd cmds)
  obtain out w where sd: "send (world st) cmd = (out, w)"
    by (cases "send (world st) cmd")
  show ?case
  proof (cases "continues json out")
    case True
    let ?st1 = "st\<lparr>results := results st @ [resolved_value out], sent := sent st @ [cmd], world := w\<rparr>"
    have grow: "length (results ?st1) \<le> length (results (runBatch_loop send json cmds ?st1))"
      "length (sent ?st1) \<le> length (sent (runBatch_loop send json cmds ?st1))"
      by (simp_all add: runBatch_loop_results runBatch_loop_sent)
    show ?thesis
      using Cons.IH [of ?st1] grow by (simp add: loop_continues [where send = send and st = st, OF sd True] del: runBatch_loop.simps) arith
  next
    case False
    have "length (recorded json cmd out) = 1 \<or> length (recorded json cmd out) = 2"
      by (cases out) (auto split: option.splits)
    then show ?thesis
      by (auto simp add: loop_stops [where send = send and st = st, OF sd False] simp del: runBatch_loop.simps)
  qed
qed

lemma attempts_all:
  assumes "\<forall>out \<in> set (outcomes send w cmds). continues json out"
  shows "attempts send json w cmds = Suc (length cmds)"
proof -
  have tw: "takeWhile (continues json) (outcomes send w cmds) = outcomes send w cmds"
    using assms by (simp add: takeWhile_eq_all_conv)
  show ?thesis
    by (simp add: attempts_def tw)
qed

lemma attempts_first_failure:
  assumes "k < length cmds"
    and "\<forall>i<k. continues json (outcomes send w cmds ! i)"
    and "\<not> continues json (outcomes send w cmds ! k)"
  shows "attempts send json w cmds = Suc k"
proof -
  have "takeWhile (continues json) (outcomes send w cmds) = take k (outcomes send w cmds)"
    using assms by (intro takeWhile_eq_take_P_nth) auto
  then show ?thesis
    using assms(1) by (simp add: attempts_def)
qed

lemma recorded_continuing:
  assumes "length cs = length os" and "\<forall>out \<in> set os. continues json out"
  shows "concat (map2 (recorded json) cs os) = map resolved_value os"
  using assms by (induction cs os rule: list_induct2) (simp_all add: continues_recorded)

lemma answers_success_continues: "answers_success json out \<Longrightarrow> continues json out"
  by (cases out) (auto simp: answers_success_def field_def)

lemma Response_failure_prints:
  assumes "is_Response v" and "field v ''success'' = Some (JBool False)"
  shows "formatResponse_error v = None"
proof -
  have "v \<noteq> JNull"
    using assms(2) by (auto simp: field_def)
  moreover have "case field v ''error'' of None \<Rightarrow> True | Some e \<Rightarrow> \<not> throws_ToString e"
    using assms(1) by (auto simp: is_Response_def split: option.splits jvalue.splits)
  ultimately show ?thesis
    using assms(2) by (auto simp: formatResponse_error_def Let_def split: option.splits)
qed

lemma answers_failure_stops:
  assumes "answers_failure out"
  shows "\<not> continues json out" and "recorded json cmd out = [resolved_value out]"
proof -
  from assms obtain v where v: "out = Resolved v" "is_Response v"
      "field v ''success'' = Some (JBool False)"
    by (cases out) (auto simp: answers_failure_def)
  have p: "formatResponse_error v = None"
    using v(2,3) by (rule Response_failure_prints)
  have n: "v \<noteq> JNull"
    using v(3) by (auto simp: field_def)
  show "\<not> continues json out"
    using v by simp
  show "recorded json cmd out = [resolved_value out]"
    using v p n by simp
qed

lemma takeWhile_stops_before:
  assumes "\<not> P (xs ! j)"
  shows "length (takeWhile P xs) \<le> j"
proof (rule ccontr)
  assume "\<not> length (takeWhile P xs) \<le> j"
  then have j: "j < length (takeWhile P xs)" by simp
  then have "takeWhile P xs ! j \<in> set (takeWhile P xs)" by simp
  then have "P (takeWhile P xs ! j)" by (auto dest: set_takeWhileD)
  with j assms show False by (simp add: takeWhile_nth)
qed

lemma sample_ok_answers: "answers_success json (Resolved (sample_ok i))"
  by (simp add: answers_success_def is_Response_def sample_ok_def field_def
        formatResponse_error_def opt_field_def)

lemma sample_failed_answers: "answers_failure (Resolved (sample_failed i))"
  by (simp add: answers_failure_def is_Response_def sample_failed_def field_def)

text \<open>
  A resolved \<open>null\<close> is pushed, and the read of its \<open>success\<close> throws into the \<open>catch\<close> branch,
  which pushes a second entry: two entries for one request.
\<close>

lemma resolved_null_is_recorded_twice:
  "batch_results (runBatch scripted [Resolved JNull] [cmdA] True) =
     [JNull, JObj [(''id'', JStr ''a1''), (''success'', JBool False),
                   (''error'', JStr ''Cannot read properties of null (reading 'success')'')]] \<and>
   completed (runBatch scripted [Resolved JNull] [cmdA] True) = 2 \<and>
   total (runBatch scripted [Resolved JNull] [cmdA] True) = 1 \<and>
   requests_sent (runBatch scripted [Resolved JNull] [cmdA] True) = [cmdA]"
  by (simp add: runBatch_def caught_def errorResponse_def null_read_error_def cmdA_def
        get_prop_def)

text \<open>
  What holds of every batch: it sends its requests in order, a prefix of the queue; \<open>total\<close>
  is the length of the queue, and every request sent records one entry, the last one
  possibly two. If every exchange resolves with a \<open>Response\<close> whose \<open>success\<close> is true, and
  which \<open>formatResponse\<close> prints where \<open>json\<close> is false and it is called, then
  \<open>completed = total\<close>, every request was sent and the aggregate \<open>success\<close> is true. If
  request number \<open>k\<close> resolves with a \<open>Response\<close> whose \<open>success\<close> is false, no request after
  it is sent and the aggregate \<open>success\<close> is false; and if it is the first such, after
  responses as above, exactly the first \<open>k\<close> requests were sent and \<open>completed = k\<close>.
\<close>

theorem runBatch_stops_at_first_failure:
  fixes send :: "'w \<Rightarrow> request \<Rightarrow> jvalue outcome \<times> 'w"
  shows
  "requests_sent (runBatch send w cmds json) =
     take (length (requests_sent (runBatch send w cmds json))) cmds \<and>
   total (runBatch send w cmds json) = length cmds \<and>
   (completed (runBatch send w cmds json) = length (requests_sent (runBatch send w cmds json)) \<or>
    completed (runBatch send w cmds json) =
      Suc (length (requests_sent (runBatch send w cmds json)))) \<and>
   ((\<forall>out \<in> set (outcomes send w cmds). answers_success json out) \<longrightarrow>
      completed (runBatch send w cmds json) = total (runBatch send w cmds json) \<and>
      batch_success (runBatch send w cmds json) \<and>
      requests_sent (runBatch send w cmds json) = cmds) \<and>
   (0 < k \<and> k \<le> length cmds \<and> answers_failure (outcomes send w cmds ! (k - 1)) \<longrightarrow>
      length (requests_sent (runBatch send w cmds json)) \<le> k \<and>
      \<not> batch_success (runBatch send w cmds json)) \<and>
   (0 < k \<and> k \<le> length cmds \<and>
    (\<forall>i<k - 1. answers_success json (outcomes send w cmds ! i)) \<and>
    answers_failure (outcomes send w cmds ! (k - 1)) \<longrightarrow>
      requests_sent (runBatch send w cmds json) = take k cmds \<and>
      completed (runBatch send w cmds json) = k \<and>
      total (runBatch send w cmds json) = length cmds \<and>
      \<not> batch_success (runBatch send w cmds json))"
proof -
  let ?R = "runBatch send w cmds json"
  let ?outs = "outcomes send w cmds"
  let ?n = "attempts send json w cmds"
  have sent: "requests_sent ?R = take ?n cmds"
    by (simp add: runBatch_def Let_def runBatch_loop_sent)
  have res: "batch_results ?R = concat (map2 (recorded json) (take ?n cmds) (take ?n ?outs))"
    by (simp add: runBatch_def Let_def runBatch_loop_results)
  have compl: "completed ?R = length (batch_results ?R)"
    by (simp add: runBatch_def Let_def)
  have tot: "total ?R = length cmds"
    by (simp add: runBatch_def Let_def)
  have succ: "batch_success ?R = (length cmds < ?n)"
    by (auto simp: runBatch_def Let_def runBatch_loop_hasError)
  have ordered: "requests_sent ?R = take (length (requests_sent ?R)) cmds"
    using sent by (simp add: min_def)
  have counts: "completed ?R = length (requests_sent ?R) \<or>
      completed ?R = Suc (length (requests_sent ?R))"
    using runBatch_loop_counts
            [of send json cmds "\<lparr>results = [], hasError = False, sent = [], world = w\<rparr>"]
    by (simp add: runBatch_def Let_def)
  have all: "(\<forall>out \<in> set ?outs. answers_success json out) \<longrightarrow>
      completed ?R = total ?R \<and> batch_success ?R \<and> requests_sent ?R = cmds"
  proof
    assume h: "\<forall>out \<in> set ?outs. answers_success json out"
    then have c: "\<forall>out \<in> set ?outs. continues json out"
      by (auto intro: answers_success_continues)
    then have n: "?n = Suc (length cmds)" by (rule attempts_all)
    have "batch_results ?R = map resolved_value ?outs"
      unfolding res n using c by (simp add: recorded_continuing)
    then show "completed ?R = total ?R \<and> batch_success ?R \<and> requests_sent ?R = cmds"
      using sent compl tot succ n by simp
  qed
  have bound: "0 < k \<and> k \<le> length cmds \<and> answers_failure (?outs ! (k - 1)) \<longrightarrow>
      length (requests_sent ?R) \<le> k \<and> \<not> batch_success ?R"
  proof
    assume h: "0 < k \<and> k \<le> length cmds \<and> answers_failure (?outs ! (k - 1))"
    then have j: "k - 1 < length ?outs" by (simp; arith)
    have "\<not> continues json (?outs ! (k - 1))"
      using h by (simp add: answers_failure_stops)
    then have "length (takeWhile (continues json) ?outs) \<le> k - 1"
      by (rule takeWhile_stops_before)
    then have "?n \<le> k" using h by (simp add: attempts_def; arith)
    then show "length (requests_sent ?R) \<le> k \<and> \<not> batch_success ?R"
      using sent succ h by simp
  qed
  have stop: "0 < k \<and> k \<le> length cmds \<and>
    (\<forall>i<k - 1. answers_success json (?outs ! i)) \<and> answers_failure (?outs ! (k - 1)) \<longrightarrow>
      requests_sent ?R = take k cmds \<and> completed ?R = k \<and> total ?R = length cmds \<and>
      \<not> batch_success ?R"
  proof
    assume h: "0 < k \<and> k \<le> length cmds \<and>
      (\<forall>i<k - 1. answers_success json (?outs ! i)) \<and> answers_failure (?outs ! (k - 1))"
    then have j: "k - 1 < length cmds" by arith
    have before: "\<forall>i<k - 1. continues json (?outs ! i)"
      using h by (auto intro: answers_success_continues)
    have last: "\<not> continues json (?outs ! (k - 1))"
      "recorded json (cmds ! (k - 1)) (?outs ! (k - 1)) = [resolved_value (?outs ! (k - 1))]"
      using h by (simp_all add: answers_failure_stops)
    have "?n = Suc (k - 1)"
      using j before last(1) by (rule attempts_first_failure)
    then have n: "?n = k" using h by simp
    have tk: "take k cmds = take (k - 1) cmds @ [cmds ! (k - 1)]"
      "take k ?outs = take (k - 1) ?outs @ [?outs ! (k - 1)]"
      using h j take_Suc_conv_app_nth [of "k - 1" cmds]
            take_Suc_conv_app_nth [of "k - 1" ?outs] by simp_all
    have pre: "concat (map2 (recorded json) (take (k - 1) cmds) (take (k - 1) ?outs)) =
                 map resolved_value (take (k - 1) ?outs)"
    proof (rule recorded_continuing)
      show "length (take (k - 1) cmds) = length (take (k - 1) ?outs)" by simp
      show "\<forall>out \<in> set (take (k - 1) ?outs). continues json out"
        using before j by (auto simp: in_set_conv_nth)
    qed
    have "length (batch_results ?R) = k"
      unfolding res n tk using pre last(2) h j by simp
    then show "requests_sent ?R = take k cmds \<and> completed ?R = k \<and> total ?R = length cmds \<and>
      \<not> batch_success ?R"
      using sent compl tot succ n h by simp
  qed
  show ?thesis
    using ordered tot counts all bound stop by blast
qed

theorem runBatch_stops_at_first_failure_witness:
  "requests_sent (runBatch scripted
       [Resolved (sample_ok ''a1''), Resolved (sample_failed ''b2''), Resolved (sample_ok ''c3'')]
       [cmdA, cmdB, cmdC] True) = [cmdA, cmdB] \<and>
   completed (runBatch scripted
       [Resolved (sample_ok ''a1''), Resolved (sample_failed ''b2''), Resolved (sample_ok ''c3'')]
       [cmdA, cmdB, cmdC] True) = 2 \<and>
   total (runBatch scripted
       [Resolved (sample_ok ''a1''), Resolved (sample_failed ''b2''), Resolved (sample_ok ''c3'')]
       [cmdA, cmdB, cmdC] True) = 3 \<and>
   \<not> batch_success (runBatch scripted
       [Resolved (sample_ok ''a1''), Resolved (sample_failed ''b2''), Resolved (sample_ok ''c3'')]
       [cmdA, cmdB, cmdC] True) \<and>
   completed (runBatch scripted [Resolved (sample_ok ''a1''), Resolved (sample_ok ''b2'')]
       [cmdA, cmdB] False) = 2 \<and>
   total (runBatch scripted [Resolved (sample_ok ''a1''), Resolved (sample_ok ''b2'')]
       [cmdA, cmdB] False) = 2 \<and>
   batch_success (runBatch scripted [Resolved (sample_ok ''a1''), Resolved (sample_ok ''b2'')]
       [cmdA, cmdB] False)"
  using runBatch_stops_at_first_failure
          [of scripted
              "[Resolved (sample_ok ''a1''), Resolved (sample_failed ''b2''), Resolved (sample_ok ''c3'')]"
              "[cmdA, cmdB, cmdC]" True 2]
        runBatch_stops_at_first_failure
          [of scripted "[Resolved (sample_ok ''a1''), Resolved (sample_ok ''b2'')]"
              "[cmdA, cmdB]" False 0]
  by (simp add: sample_ok_answers sample_failed_answers less_Suc_eq numeral_2_eq_2)

text \<open>
  C1 asks that a batch in which every exchange resolves with a \<open>Response\<close> whose \<open>success\<close>
  is true ends with \<open>completed = total\<close> and \<open>success\<close> true. When \<open>json\<close> is false the loop
  prints each response inside its \<open>try\<close> block, after the push, and an error thrown by
  \<open>formatResponse\<close> is caught as if the exchange had failed: a failure response is pushed
  for the same request and the batch is marked failed. On a queue of one request, answered
  by a \<open>Response\<close> with \<open>success\<close> true whose \<open>snapshot\<close> cannot be converted to a string,
  \<open>completed\<close> is 2 for a \<open>total\<close> of 1 and the exit code is 1. With \<open>json\<close> true the same
  answer gives \<open>completed = total = 1\<close> and \<open>success\<close> true.
\<close>

theorem plain_batch_records_unprintable_response_twice:
  "is_Response (sample_unprintable ''a1'') \<and>
   field (sample_unprintable ''a1'') ''success'' = Some (JBool True) \<and>
   batch_results (runBatch scripted [Resolved (sample_unprintable ''a1'')] [cmdA] False) =
     [sample_unprintable ''a1'',
      JObj [(''id'', JStr ''a1''), (''success'', JBool False),
            (''error'', JStr ''Cannot convert object to primitive value'')]] \<and>
   requests_sent (runBatch scripted [Resolved (sample_unprintable ''a1'')] [cmdA] False) = [cmdA] \<and>
   completed (runBatch scripted [Resolved (sample_unprintable ''a1'')] [cmdA] False) = 2 \<and>
   total (runBatch scripted [Resolved (sample_unprintable ''a1'')] [cmdA] False) = 1 \<and>
   \<not> batch_success (runBatch scripted [Resolved (sample_unprintable ''a1'')] [cmdA] False) \<and>
   exit_code (runBatch scripted [Resolved (sample_unprintable ''a1'')] [cmdA] False) = 1 \<and>
   completed (runBatch scripted [Resolved (sample_unprintable ''a1'')] [cmdA] True) = 1 \<and>
   total (runBatch scripted [Resolved (sample_unprintable ''a1'')] [cmdA] True) = 1 \<and>
   batch_success (runBatch scripted [Resolved (sample_unprintable ''a1'')] [cmdA] True) \<and>
   exit_code (runBatch scripted [Resolved (sample_unprintable ''a1'')] [cmdA] True) = 0"
  by (simp add: runBatch_def caught_def errorResponse_def sample_unprintable_def is_Response_def
        field_def opt_field_def formatResponse_error_def primitive_error_def cmdA_def
        get_prop_def)

text \<open>
  C4: a request whose exchange is rejected gets a failure response with its \<open>id\<close> and the
  message of the error, the batch is marked failed, and the loop ends, from any state of
  the loop. In a batch that reaches the request, the exchanges before it having let the
  batch go on, the results are the values they resolved with and then the failure response,
  and nothing further is sent.
\<close>

theorem runBatch_synthesizes_failure:
  fixes send :: "'w \<Rightarrow> request \<Rightarrow> jvalue outcome \<times> 'w"
  assumes "k < length cmds"
    and "\<forall>i<k. continues json (outcomes send w cmds ! i)"
    and "outcomes send w cmds ! k = Rejected message"
  shows "batch_results (runBatch send w cmds json) =
           map resolved_value (take k (outcomes send w cmds)) @
           [JObj [(''id'', JStr (to_String (get_prop (cmds ! k) ''id''))),
                  (''success'', JBool False), (''error'', JStr message)]] \<and>
         (get_prop (cmds ! k) ''id'' = Str i \<longrightarrow>
            field (last (batch_results (runBatch send w cmds json))) ''id'' = Some (JStr i)) \<and>
         \<not> batch_success (runBatch send w cmds json) \<and>
         exit_code (runBatch send w cmds json) = 1 \<and>
         requests_sent (runBatch send w cmds json) = take (Suc k) cmds \<and>
         completed (runBatch send w cmds json) = Suc k \<and>
         (\<forall>st cmd rest m w'.
            send (world st) cmd = (Rejected m, w') \<longrightarrow>
              runBatch_loop send json (cmd # rest) st =
                st\<lparr>results := results st @
                       [JObj [(''id'', JStr (to_String (get_prop cmd ''id''))),
                              (''success'', JBool False), (''error'', JStr m)]],
                   hasError := True, sent := sent st @ [cmd], world := w'\<rparr>)"
proof -
  let ?R = "runBatch send w cmds json"
  let ?outs = "outcomes send w cmds"
  have before: "\<forall>i<k. continues json (?outs ! i)"
    using assms(2) .
  have stop: "\<not> continues json (?outs ! k)"
    using assms(3) by simp
  have n: "attempts send json w cmds = Suc k"
    using assms(1) before stop by (rule attempts_first_failure)
  have tk: "take (Suc k) cmds = take k cmds @ [cmds ! k]"
    "take (Suc k) ?outs = take k ?outs @ [?outs ! k]"
    using assms(1) by (simp_all add: take_Suc_conv_app_nth)
  have pre: "concat (map2 (recorded json) (take k cmds) (take k ?outs)) =
               map resolved_value (take k ?outs)"
  proof (rule recorded_continuing)
    show "length (take k cmds) = length (take k ?outs)" by simp
    show "\<forall>out \<in> set (take k ?outs). continues json out"
      using before assms(1) by (auto simp: in_set_conv_nth)
  qed
  have res: "batch_results ?R =
           map resolved_value (take k ?outs) @
           [JObj [(''id'', JStr (to_String (get_prop (cmds ! k) ''id''))),
                  (''success'', JBool False), (''error'', JStr message)]]"
    using n tk pre assms(1,3)
    by (simp add: runBatch_def Let_def runBatch_loop_results errorResponse_def)
  have loop: "\<forall>st cmd rest m w'.
            send (world st) cmd = (Rejected m, w') \<longrightarrow>
              runBatch_loop send json (cmd # rest) st =
                st\<lparr>results := results st @
                       [JObj [(''id'', JStr (to_String (get_prop cmd ''id''))),
                              (''success'', JBool False), (''error'', JStr m)]],
                   hasError := True, sent := sent st @ [cmd], world := w'\<rparr>"
    by (simp add: caught_def errorResponse_def)
  have rest: "\<not> batch_success ?R \<and> exit_code ?R = 1 \<and>
      requests_sent ?R = take (Suc k) cmds \<and> completed ?R = Suc k"
    using res n assms(1)
    by (auto simp: runBatch_def Let_def runBatch_loop_sent runBatch_loop_hasError)
  have ident: "get_prop (cmds ! k) ''id'' = Str i \<longrightarrow>
            field (last (batch_results ?R)) ''id'' = Some (JStr i)"
    unfolding res by (simp add: field_def)
  show ?thesis
    using res ident rest loop by blast
qed

theorem runBatch_synthesizes_failure_witness:
  "batch_results (runBatch scripted [Resolved (sample_ok ''a1''), Rejected ''Timeout'']
       [cmdA, cmdB, cmdC] True) =
     [sample_ok ''a1'',
      JObj [(''id'', JStr ''b2''), (''success'', JBool False), (''error'', JStr ''Timeout'')]] \<and>
   \<not> batch_success (runBatch scripted [Resolved (sample_ok ''a1''), Rejected ''Timeout'']
       [cmdA, cmdB, cmdC] True) \<and>
   requests_sent (runBatch scripted [Resolved (sample_ok ''a1''), Rejected ''Timeout'']
       [cmdA, cmdB, cmdC] True) = [cmdA, cmdB]"
proof -
  let ?script = "[Resolved (sample_ok ''a1''), Rejected ''Timeout'']"
  let ?cmds = "[cmdA, cmdB, cmdC]"
  have h1: "1 < length ?cmds" by simp
  have h2: "\<forall>i<1. continues True (outcomes scripted ?script ?cmds ! i)"
    by (simp add: sample_ok_def field_def)
  have h3: "outcomes scripted ?script ?cmds ! 1 = Rejected ''Timeout''"
    by simp
  show ?thesis
    using runBatch_synthesizes_failure [OF h1 h2 h3, of "''b2''"]
    by (simp add: cmdB_def get_prop_def)
qed

section \<open>Properties of one exchange\<close>

lemma cleanup_fields [simp]:
  "buffer (cleanup s) = buffer s" "resolved (cleanup s) = resolved s"
  "listening (cleanup s) = False"
  "settlements (cleanup s) = settlements s" "destroys (cleanup s) = Suc (destroys s)"
  "removals (cleanup s) = Suc (removals s)"
  by (simp_all add: cleanup_def settlements_def destroys_def removals_def)

lemma resolve_fields [simp]:
  "buffer (resolve r s) = buffer s" "resolved (resolve r s) = resolved s"
  "listening (resolve r s) = listening s"
  "settlements (resolve r s) = settlements s @ [Settle (Resolved r)]"
  "destroys (resolve r s) = destroys s" "removals (resolve r s) = removals s"
  by (simp_all add: resolve_def settlements_def destroys_def removals_def)

lemma reject_fields [simp]:
  "buffer (reject m s) = buffer s" "resolved (reject m s) = resolved s"
  "listening (reject m s) = listening s"
  "settlements (reject m s) = settlements s @ [Settle (Rejected m)]"
  "destroys (reject m s) = destroys s" "removals (reject m s) = removals s"
  by (simp_all add: reject_def settlements_def destroys_def removals_def)

lemma on_connect_fields [simp]:
  "buffer (on_connect wire s) = buffer s" "resolved (on_connect wire s) = resolved s"
  "listening (on_connect wire s) = listening s"
  "settlements (on_connect wire s) = settlements s" "destroys (on_connect wire s) = destroys s"
  "removals (on_connect wire s) = removals s"
  by (simp_all add: on_connect_def settlements_def destroys_def removals_def)

lemma update_fields [simp]:
  "settlements (s\<lparr>resolved := b\<rparr>) = settlements s" "destroys (s\<lparr>resolved := b\<rparr>) = destroys s"
  "removals (s\<lparr>resolved := b\<rparr>) = removals s"
  "settlements (s\<lparr>buffer := t\<rparr>) = settlements s" "destroys (s\<lparr>buffer := t\<rparr>) = destroys s"
  "removals (s\<lparr>buffer := t\<rparr>) = removals s"
  by (simp_all add: settlements_def destroys_def removals_def)

lemma inv_new: "exchange_inv new_exchange"
  by (simp add: exchange_inv_def new_exchange_def settlements_def destroys_def removals_def)

lemma inv_on_connect: "exchange_inv s \<Longrightarrow> exchange_inv (on_connect wire s)"
  by (simp add: exchange_inv_def)

lemma inv_on_timeout: "exchange_inv s \<Longrightarrow> exchange_inv (on_timeout s)"
  by (simp add: exchange_inv_def on_timeout_def)

lemma inv_on_error: "exchange_inv s \<Longrightarrow> exchange_inv (on_error err s)"
  by (simp add: exchange_inv_def on_error_def)

lemma inv_on_close: "exchange_inv s \<Longrightarrow> exchange_inv (on_close parse s)"
  by (simp add: exchange_inv_def on_close_def Let_def split: option.splits)

lemma inv_on_data: "exchange_inv s \<Longrightarrow> exchange_inv (on_data parse d s)"
  by (auto simp: exchange_inv_def on_data_def indexOf_newline_def Let_def
        split: option.splits if_splits)

lemma inv_step: "exchange_inv s \<Longrightarrow> exchange_inv (step wire parse s ev)"
  by (cases ev) (simp_all add: inv_on_connect inv_on_timeout inv_on_error inv_on_close inv_on_data)

lemma inv_foldl: "exchange_inv s \<Longrightarrow> exchange_inv (foldl (step wire parse) s evs)"
  by (induction evs arbitrary: s) (simp_all add: inv_step)

lemma inv_sendCommand: "exchange_inv (sendCommand wire parse evs)"
  by (simp add: sendCommand_def inv_foldl inv_new)

lemma sendCommand_snoc:
  "sendCommand wire parse (evs @ [ev]) = step wire parse (sendCommand wire parse evs) ev"
  by (simp add: sendCommand_def)

lemma step_settled:
  assumes "exchange_inv s" and "settlements s \<noteq> []"
  shows "settlements (step wire parse s ev) = settlements s"
proof -
  have r: "resolved s"
    using assms by (auto simp: exchange_inv_def split: if_splits)
  show ?thesis
    using r
    by (cases ev)
       (simp_all add: on_timeout_def on_error_def on_close_def on_data_def Let_def
          split: option.splits)
qed

lemma foldl_settled:
  assumes "exchange_inv s" and "settlements s \<noteq> []"
  shows "settlements (foldl (step wire parse) s evs) = settlements s"
  using assms
proof (induction evs arbitrary: s)
  case Nil
  then show ?case by simp
next
  case (Cons ev evs)
  have "settlements (step wire parse s ev) = settlements s"
    using Cons.prems by (rule step_settled)
  moreover have "exchange_inv (step wire parse s ev)"
    using Cons.prems(1) by (rule inv_step)
  ultimately show ?case
    using Cons.IH [of "step wire parse s ev"] Cons.prems(2) by simp
qed

lemma step_wins_with_cleanup:
  assumes "exchange_inv s" and "settlements s = []" and "settlements (step wire parse s ev) \<noteq> []"
    and "ev \<noteq> Close"
  shows "removals (step wire parse s ev) = 1 \<and> destroys (step wire parse s ev) = 1"
proof -
  have r: "\<not> resolved s" "listening s" "destroys s = 0" "removals s = 0"
    using assms(1,2) by (auto simp: exchange_inv_def split: if_splits)
  show ?thesis
    using r assms(2,3,4)
    by (cases ev)
       (auto simp: on_timeout_def on_error_def on_data_def Let_def
          split: option.splits if_splits)
qed

text \<open>Once the timer has fired, the promise is settled, whatever came before.\<close>

lemma timeout_settles:
  "settlements (sendCommand wire parse (evs @ [Timeout])) \<noteq> []"
proof -
  have inv: "exchange_inv (sendCommand wire parse evs)" by (rule inv_sendCommand)
  show ?thesis
  proof (cases "resolved (sendCommand wire parse evs)")
    case True
    then have "settlements (sendCommand wire parse evs) \<noteq> []"
      using inv by (auto simp: exchange_inv_def)
    with True show ?thesis
      by (simp add: sendCommand_snoc on_timeout_def)
  next
    case False
    then show ?thesis
      by (simp add: sendCommand_snoc on_timeout_def)
  qed
qed

text \<open>
  Whatever events arrive, the promise of an exchange is settled at most once, and the first
  settlement stays; the listeners are removed and the socket is destroyed at most once; and
  when the event that settles the promise is data with the first newline, a socket error or
  the timeout, they are removed and destroyed exactly once.
\<close>

theorem exchange_settles_once:
  "length (settlements (sendCommand wire parse evs)) \<le> 1 \<and>
   removals (sendCommand wire parse evs) \<le> 1 \<and>
   destroys (sendCommand wire parse evs) \<le> 1 \<and>
   (settlements (sendCommand wire parse evs) \<noteq> [] \<longrightarrow>
      settlements (sendCommand wire parse (evs @ later)) = settlements (sendCommand wire parse evs)) \<and>
   (settlements (sendCommand wire parse evs) = [] \<and>
    settlements (sendCommand wire parse (evs @ [ev])) \<noteq> [] \<and> ev \<noteq> Close \<longrightarrow>
      removals (sendCommand wire parse (evs @ [ev])) = 1 \<and>
      destroys (sendCommand wire parse (evs @ [ev])) = 1)"
proof -
  let ?s = "sendCommand wire parse evs"
  have inv: "exchange_inv ?s" by (rule inv_sendCommand)
  have once: "length (settlements ?s) \<le> 1 \<and> removals ?s \<le> 1 \<and> destroys ?s \<le> 1"
    using inv by (auto simp: exchange_inv_def split: if_splits)
  have first: "settlements ?s \<noteq> [] \<longrightarrow>
      settlements (sendCommand wire parse (evs @ later)) = settlements ?s"
    using foldl_settled [OF inv, of wire parse later] by (simp add: sendCommand_def)
  have wins: "settlements ?s = [] \<and>
    settlements (sendCommand wire parse (evs @ [ev])) \<noteq> [] \<and> ev \<noteq> Close \<longrightarrow>
      removals (sendCommand wire parse (evs @ [ev])) = 1 \<and>
      destroys (sendCommand wire parse (evs @ [ev])) = 1"
    using step_wins_with_cleanup [OF inv, of wire parse ev] by (simp add: sendCommand_snoc)
  show ?thesis
    using once first wins by blast
qed

theorem exchange_settles_once_witness:
  "settlements (sendCommand ''{}'' sample_parse [Connect]) = [] \<and>
   settlements (sendCommand ''{}'' sample_parse
      [Connect, Data (''{\"id\":\"a1\",\"success\":true}'' @ [CHR 0x0A])]) =
     [Settle (Resolved (sample_ok ''a1''))] \<and>
   removals (sendCommand ''{}'' sample_parse
      [Connect, Data (''{\"id\":\"a1\",\"success\":true}'' @ [CHR 0x0A])]) = 1 \<and>
   destroys (sendCommand ''{}'' sample_parse
      [Connect, Data (''{\"id\":\"a1\",\"success\":true}'' @ [CHR 0x0A])]) = 1 \<and>
   settlements (sendCommand ''{}'' sample_parse
      [Connect, Data (''{\"id\":\"a1\",\"success\":true}'' @ [CHR 0x0A]), Timeout, Close]) =
     [Settle (Resolved (sample_ok ''a1''))]"
proof -
  have pending: "settlements (sendCommand ''{}'' sample_parse [Connect]) = []"
    by (simp add: sendCommand_def new_exchange_def on_connect_def settlements_def)
  have won: "settlements (sendCommand ''{}'' sample_parse
      ([Connect] @ [Data (''{\"id\":\"a1\",\"success\":true}'' @ [CHR 0x0A])])) =
     [Settle (Resolved (sample_ok ''a1''))]"
    by (simp add: sendCommand_def new_exchange_def on_connect_def on_data_def
          indexOf_newline_def sample_parse_def resolve_def cleanup_def settlements_def)
  show ?thesis
    using pending won
      exchange_settles_once [of "''{}''" sample_parse "[Connect]" "[]"
         "Data (''{\"id\":\"a1\",\"success\":true}'' @ [CHR 0x0A])"]
      exchange_settles_once [of "''{}''" sample_parse
         "[Connect, Data (''{\"id\":\"a1\",\"success\":true}'' @ [CHR 0x0A])]"
         "[Timeout, Close]" Connect]
    by simp
qed

text \<open>
  C2 asks that on every resolution path the connection is destroyed and its listeners are
  removed exactly once. The handlers of data, socket error and timeout do so through
  \<open>cleanup\<close>; the close handler settles the promise and never calls it. On the events
  connect, a response without its newline, close, the promise is resolved from the buffered
  text while \<open>removeAllListeners\<close> and \<open>destroy\<close> are called zero times.
\<close>

theorem close_handler_skips_cleanup:
  "settlements (sendCommand ''{}'' sample_parse
      [Connect, Data ''{\"id\":\"a1\",\"success\":true}'', Close]) =
     [Settle (Resolved (sample_ok ''a1''))] \<and>
   removals (sendCommand ''{}'' sample_parse
      [Connect, Data ''{\"id\":\"a1\",\"success\":true}'', Close]) = 0 \<and>
   destroys (sendCommand ''{}'' sample_parse
      [Connect, Data ''{\"id\":\"a1\",\"success\":true}'', Close]) = 0"
  by (simp add: sendCommand_def new_exchange_def on_connect_def on_data_def on_close_def
        indexOf_newline_def sample_parse_def resolve_def settlements_def removals_def
        destroys_def trim_def is_space_def)

text \<open>
  C3, as the code has it: when the connection closes on an unsettled exchange whose buffer
  holds more than white space, the trimmed buffer is parsed; the exchange resolves with the
  response when the parse succeeds, and is rejected with \<open>Connection closed\<close> when it fails.
\<close>

theorem close_parses_trimmed_buffer:
  assumes "settlements (sendCommand wire parse evs) = []"
    and "trim (buffer (sendCommand wire parse evs)) \<noteq> []"
  shows "settlements (sendCommand wire parse (evs @ [Close])) =
           [Settle (case parse (trim (buffer (sendCommand wire parse evs))) of
                      Some response \<Rightarrow> Resolved response
                    | None \<Rightarrow> Rejected ''Connection closed'')]"
proof -
  let ?s = "sendCommand wire parse evs"
  have inv: "exchange_inv ?s" by (rule inv_sendCommand)
  have r: "\<not> resolved ?s" "listening ?s"
    using inv assms(1) by (auto simp: exchange_inv_def split: if_splits)
  show ?thesis
    using r assms
    by (simp add: sendCommand_snoc on_close_def Let_def split: option.splits)
qed

theorem close_parses_trimmed_buffer_witness:
  "settlements (sendCommand ''{}'' sample_parse
      [Connect, Data ''  {\"id\":\"a1\",\"success\":true} '']) = [] \<and>
   trim (buffer (sendCommand ''{}'' sample_parse
      [Connect, Data ''  {\"id\":\"a1\",\"success\":true} ''])) = ''{\"id\":\"a1\",\"success\":true}'' \<and>
   settlements (sendCommand ''{}'' sample_parse
      [Connect, Data ''  {\"id\":\"a1\",\"success\":true} '', Close]) =
     [Settle (Resolved (sample_ok ''a1''))]"
proof -
  let ?evs = "[Connect, Data ''  {\"id\":\"a1\",\"success\":true} '']"
  have pending: "settlements (sendCommand ''{}'' sample_parse ?evs) = []"
    by (simp add: sendCommand_def new_exchange_def on_connect_def on_data_def
          indexOf_newline_def settlements_def)
  have buf: "trim (buffer (sendCommand ''{}'' sample_parse ?evs)) =
               ''{\"id\":\"a1\",\"success\":true}''"
    by (simp add: sendCommand_def new_exchange_def on_connect_def on_data_def
          indexOf_newline_def trim_def is_space_def)
  have nonblank: "trim (buffer (sendCommand ''{}'' sample_parse ?evs)) \<noteq> []"
    using buf by simp
  show ?thesis
    using pending buf close_parses_trimmed_buffer [OF pending nonblank]
    by (simp add: sample_parse_def)
qed

text \<open>
  C3 as stated fails when nothing was buffered: the close settles nothing, and the timeout
  then rejects with \<open>Timeout\<close>.
\<close>

theorem close_with_nothing_buffered_counterexample:
  "settlements (sendCommand ''{}'' sample_parse [Connect, Close]) = [] \<and>
   settlements (sendCommand ''{}'' sample_parse [Connect, Close, Timeout]) =
     [Settle (Rejected ''Timeout'')]"
  by (simp add: sendCommand_def new_exchange_def on_connect_def on_close_def on_timeout_def
        reject_def cleanup_def settlements_def trim_def)

section \<open>Properties of the daemon supervisor\<close>

lemma poll_seen: "poll sock k n \<longleftrightarrow> (\<exists>i<n. sock (k + i))"
proof (induction n arbitrary: k)
  case 0
  then show ?case by simp
next
  case (Suc n)
  show ?case
  proof (cases "sock k")
    case True
    then have "\<exists>i<Suc n. sock (k + i)" by (intro exI [of _ 0]) simp
    with True show ?thesis by simp
  next
    case False
    have "(\<exists>i<n. sock (Suc k + i)) \<longleftrightarrow> (\<exists>i<Suc n. sock (k + i))"
    proof
      assume "\<exists>i<n. sock (Suc k + i)"
      then obtain i where "i < n" "sock (Suc k + i)" by blast
      then show "\<exists>i<Suc n. sock (k + i)" by (intro exI [of _ "Suc i"]) simp
    next
      assume "\<exists>i<Suc n. sock (k + i)"
      then obtain i where i: "i < Suc n" "sock (k + i)" by blast
      with False have "i \<noteq> 0" by (cases i) auto
      then obtain j where "i = Suc j" by (cases i) auto
      with i show "\<exists>i<n. sock (Suc k + i)" by (intro exI [of _ j]) simp
    qed
    with False Suc.IH [of "Suc k"] show ?thesis by simp
  qed
qed

text \<open>
  C9: the daemon counts as not running, and \<open>ensureDaemon\<close> does not return at once,
  whenever the marker file is absent, its text does not parse, or the recorded process does
  not exist, whether or not the socket path exists; and \<open>ensureDaemon\<close> returns at once,
  spawning nothing, exactly when the recorded process is alive and the socket path exists.
\<close>

theorem daemon_liveness_and_ready:
  "(\<not> pid_file_exists h \<or>
    (\<exists>txt. pid_file_text h = Some txt \<and> parseInt (trim txt) = NaN) \<or>
    (\<exists>txt pid. pid_file_text h = Some txt \<and> parseInt (trim txt) = Num pid \<and> \<not> kill0 h pid)
      \<longrightarrow> \<not> isDaemonRunning h \<and> ensureDaemon h \<noteq> Ready) \<and>
   (ensureDaemon h = Ready \<longleftrightarrow>
      (pid_file_exists h \<and>
       (\<exists>txt pid. pid_file_text h = Some txt \<and> parseInt (trim txt) = Num pid \<and>
                  - (2 ^ 31) \<le> pid \<and> pid < 2 ^ 31 \<and> kill0 h pid)) \<and>
      socket_exists h 0)"
proof -
  have running: "isDaemonRunning h \<longleftrightarrow>
      (pid_file_exists h \<and>
       (\<exists>txt pid. pid_file_text h = Some txt \<and> parseInt (trim txt) = Num pid \<and>
                  - (2 ^ 31) \<le> pid \<and> pid < 2 ^ 31 \<and> kill0 h pid))"
    by (auto simp: isDaemonRunning_def process_kill0_def split: option.splits number.splits)
  have ready: "ensureDaemon h = Ready \<longleftrightarrow> isDaemonRunning h \<and> socket_exists h 0"
    by (simp add: ensureDaemon_def Let_def)
  show ?thesis
    unfolding ready running by auto
qed

theorem daemon_liveness_and_ready_witness:
  "ensureDaemon host_live = Ready \<and>
   \<not> isDaemonRunning host_stale \<and> socket_exists host_stale 0 \<and>
   ensureDaemon host_stale = Started ''/opt/agent-browser/dist/daemon.js'' \<and>
   \<not> isDaemonRunning host_garbled \<and> \<not> isDaemonRunning host_unmarked"
proof -
  have pid: "parseInt (trim (''4242'' @ [CHR 0x0A])) = Num 4242"
    by (simp add: parseInt_def trim_def is_space_def is_digit_def dec_value_def
          nearest_double_def)
  have nan: "parseInt (trim ''restarting'') = NaN"
    by (simp add: parseInt_def trim_def is_space_def is_digit_def)
  have live: "pid_file_exists host_live \<and>
       (\<exists>txt pid. pid_file_text host_live = Some txt \<and> parseInt (trim txt) = Num pid \<and>
                  - (2 ^ 31) \<le> pid \<and> pid < 2 ^ 31 \<and> kill0 host_live pid)"
    using pid by (simp add: host_live_def)
  have stale: "\<exists>txt pid. pid_file_text host_stale = Some txt \<and> parseInt (trim txt) = Num pid \<and>
                  \<not> kill0 host_stale pid"
    using pid by (simp add: host_stale_def host_live_def)
  have garbled: "\<exists>txt. pid_file_text host_garbled = Some txt \<and> parseInt (trim txt) = NaN"
    using nan by (simp add: host_garbled_def host_live_def)
  have unmarked: "\<not> pid_file_exists host_unmarked"
    by (simp add: host_unmarked_def host_live_def)
  have started: "ensureDaemon host_stale = Started ''/opt/agent-browser/dist/daemon.js''"
    using daemon_liveness_and_ready [of host_stale] stale
    by (simp add: ensureDaemon_def host_stale_def host_live_def eval_nat_numeral)
  show ?thesis
    using daemon_liveness_and_ready [of host_live] daemon_liveness_and_ready [of host_stale]
          daemon_liveness_and_ready [of host_garbled] daemon_liveness_and_ready [of host_unmarked]
          live stale garbled unmarked started
    by (simp add: host_live_def host_stale_def)
qed

end
